theory Spec2Isabelle
  imports Complex_Main "HOL-Library.Log_Nat" "HOL-Library.Multiset"
begin

section \<open>Python numbers\<close>

text \<open>
  The scoring code of \<^verbatim>\<open>mcda_analysis.py\<close> multiplies ratings by \<^verbatim>\<open>float\<close> weights, adds the
  products up and calls \<^verbatim>\<open>round(total_score, 2)\<close>. A Python \<^verbatim>\<open>float\<close> is an IEEE 754 binary64
  number. A finite one is modelled by the rational it denotes, and every arithmetic
  operation rounds its exact result to the nearest binary64 number, ties to even. The two
  zeros are identified: \<^verbatim>\<open>==\<close>, \<^verbatim>\<open><\<close>, pandas' \<^verbatim>\<open>rank\<close> and \<^verbatim>\<open>sort_values\<close> do not tell them apart.
\<close>

datatype pyfloat = Fin rat | PInf | NInf | NaN

definition pow2 :: "int \<Rightarrow> rat" where
  "pow2 e = (if 0 \<le> e then of_int (2 ^ nat e) else 1 / of_int (2 ^ nat (- e)))"

text \<open>Rounding a rational to the nearest integer, a tie going to the even neighbour.\<close>

definition round_half_even :: "rat \<Rightarrow> int" where
  "round_half_even q =
     (let f = \<lfloor>q\<rfloor>; d = q - of_int f
      in if d < 1 / 2 then f else if 1 / 2 < d then f + 1 else if even f then f else f + 1)"

text \<open>\<open>ilog2 q\<close> is the binary exponent of a positive \<open>q\<close>: \<open>2 ^ ilog2 q \<le> q < 2 ^ (ilog2 q + 1)\<close>.\<close>

definition ilog2 :: "rat \<Rightarrow> int" where
  "ilog2 q = (if 1 \<le> q then bitlen \<lfloor>q\<rfloor> - 1 else - bitlen (\<lceil>1 / q\<rceil> - 1))"

text \<open>
  binary64 has 53 significant bits and exponents from \<open>-1022\<close> (below which numbers are
  subnormal, all on the grid of \<open>2 ^ -1074\<close>) to \<open>1023\<close>.
\<close>

definition dbl_max :: rat where
  "dbl_max = of_int (2 ^ 53 - 1) * pow2 971"

definition round_to_grid :: "rat \<Rightarrow> rat" where
  "round_to_grid q =
     (let e = max (ilog2 \<bar>q\<bar>) (- 1022); ulp = pow2 (e - 52)
      in of_int (round_half_even (q / ulp)) * ulp)"

definition double_of_rat :: "rat \<Rightarrow> pyfloat" where
  "double_of_rat q =
     (if q = 0 then Fin 0
      else let r = round_to_grid q
           in if dbl_max < r then PInf else if r < - dbl_max then NInf else Fin r)"

fun fmul :: "pyfloat \<Rightarrow> pyfloat \<Rightarrow> pyfloat" where
  "fmul (Fin a) (Fin b) = double_of_rat (a * b)"
| "fmul (Fin a) PInf = (if a = 0 then NaN else if 0 < a then PInf else NInf)"
| "fmul (Fin a) NInf = (if a = 0 then NaN else if 0 < a then NInf else PInf)"
| "fmul PInf (Fin b) = (if b = 0 then NaN else if 0 < b then PInf else NInf)"
| "fmul NInf (Fin b) = (if b = 0 then NaN else if 0 < b then NInf else PInf)"
| "fmul PInf PInf = PInf"
| "fmul PInf NInf = NInf"
| "fmul NInf PInf = NInf"
| "fmul NInf NInf = PInf"
| "fmul NaN _ = NaN"
| "fmul _ NaN = NaN"

fun fadd :: "pyfloat \<Rightarrow> pyfloat \<Rightarrow> pyfloat" where
  "fadd (Fin a) (Fin b) = double_of_rat (a + b)"
| "fadd NaN _ = NaN"
| "fadd _ NaN = NaN"
| "fadd PInf NInf = NaN"
| "fadd NInf PInf = NaN"
| "fadd PInf _ = PInf"
| "fadd _ PInf = PInf"
| "fadd NInf _ = NInf"
| "fadd _ NInf = NInf"

text \<open>The comparison \<^verbatim>\<open><\<close> of two floats: false as soon as one side is NaN.\<close>

fun fless :: "pyfloat \<Rightarrow> pyfloat \<Rightarrow> bool" where
  "fless NaN _ = False"
| "fless _ NaN = False"
| "fless (Fin a) (Fin b) = (a < b)"
| "fless NInf NInf = False"
| "fless NInf _ = True"
| "fless _ NInf = False"
| "fless PInf _ = False"
| "fless _ PInf = True"

fun fle :: "pyfloat \<Rightarrow> pyfloat \<Rightarrow> bool" where
  "fle NaN _ = False"
| "fle _ NaN = False"
| "fle a b = (\<not> fless b a)"

section \<open>Python values and exceptions\<close>

text \<open>
  The values a cell of the input table can hold: an \<^verbatim>\<open>int\<close> (unbounded), a \<^verbatim>\<open>float\<close>, a \<^verbatim>\<open>str\<close>
  (the \<^verbatim>\<open>tool_name\<close> column) or \<^verbatim>\<open>None\<close>.
\<close>

datatype pyval = PyInt int | PyFloat pyfloat | PyStr string | PyNone

text \<open>
  The exceptions the modelled operations raise. \<open>InvalidRatingError\<close> is the error kind
  the specification names; no statement of the source raises it.
\<close>

datatype error = TypeError | OverflowError | ValueError | KeyError | IndexError
  | InvalidRatingError

text \<open>Converting an \<^verbatim>\<open>int\<close> to \<^verbatim>\<open>float\<close> raises \<^verbatim>\<open>OverflowError\<close> beyond the binary64 range.\<close>

definition float_of_int :: "int \<Rightarrow> error + pyfloat" where
  "float_of_int n =
     (case double_of_rat (of_int n) of Fin q \<Rightarrow> Inr (Fin q) | _ \<Rightarrow> Inl OverflowError)"

text \<open>\<^verbatim>\<open>v * weight\<close> for a \<^verbatim>\<open>float\<close> weight.\<close>

fun py_mul :: "pyval \<Rightarrow> pyfloat \<Rightarrow> error + pyfloat" where
  "py_mul (PyInt n) w =
     (case float_of_int n of Inl e \<Rightarrow> Inl e | Inr x \<Rightarrow> Inr (fmul x w))"
| "py_mul (PyFloat x) w = Inr (fmul x w)"
| "py_mul (PyStr s) w = Inl TypeError"
| "py_mul PyNone w = Inl TypeError"

text \<open>\<^verbatim>\<open>total + p\<close> for a \<^verbatim>\<open>float\<close> product \<open>p\<close>.\<close>

fun py_add :: "pyval \<Rightarrow> pyfloat \<Rightarrow> error + pyval" where
  "py_add (PyInt n) p =
     (case float_of_int n of Inl e \<Rightarrow> Inl e | Inr x \<Rightarrow> Inr (PyFloat (fadd x p)))"
| "py_add (PyFloat x) p = Inr (PyFloat (fadd x p))"
| "py_add (PyStr s) p = Inl TypeError"
| "py_add PyNone p = Inl TypeError"

text \<open>
  \<^verbatim>\<open>round(v, 2)\<close>. An \<^verbatim>\<open>int\<close> is returned as it is. For a finite \<^verbatim>\<open>float\<close> CPython prints the exact
  binary value with two digits after the point, correctly rounded half to even, and reads
  the decimal back as the nearest \<^verbatim>\<open>float\<close>; NaN and the infinities round to themselves.
\<close>

definition round_2dp :: "rat \<Rightarrow> rat" where
  "round_2dp q = of_int (round_half_even (q * 100)) / 100"

fun py_round2 :: "pyval \<Rightarrow> error + pyval" where
  "py_round2 (PyInt n) = Inr (PyInt n)"
| "py_round2 (PyFloat (Fin q)) =
     (case double_of_rat (round_2dp q) of
        Fin r \<Rightarrow> Inr (PyFloat (Fin r))
      | _ \<Rightarrow> Inl OverflowError)"
| "py_round2 (PyFloat x) = Inr (PyFloat x)"
| "py_round2 (PyStr s) = Inl TypeError"
| "py_round2 PyNone = Inl TypeError"

section \<open>The scorer\<close>

text \<open>
  \<^verbatim>\<open>CRITERIA_WEIGHTS\<close> is a module-level dict, read by \<^verbatim>\<open>calculate_weighted_score\<close> when it is
  called. A dict keeps its insertion order, and the float additions depend on that order, so
  the table is a list of pairs. The literal \<^verbatim>\<open>0.20\<close> denotes the float nearest to \<open>1/5\<close>.
\<close>

type_synonym weights = "(string \<times> pyfloat) list"

type_synonym row = "string \<rightharpoonup> pyval"

definition CRITERIA_WEIGHTS :: weights where
  "CRITERIA_WEIGHTS =
     [(''ease_of_use'', double_of_rat (20 / 100)),
      (''integration_readiness'', double_of_rat (20 / 100)),
      (''cost_efficiency'', double_of_rat (15 / 100)),
      (''scalability'', double_of_rat (15 / 100)),
      (''paperwork_automation'', double_of_rat (15 / 100)),
      (''real_time_visibility'', double_of_rat (15 / 100))]"

text \<open>
  The loop \<^verbatim>\<open>for criterion, weight in CRITERIA_WEIGHTS.items()\<close>, with the running
  \<^verbatim>\<open>total_score\<close> as accumulator; an exception leaves the loop at once.
\<close>

fun weighted_loop :: "weights \<Rightarrow> row \<Rightarrow> pyval \<Rightarrow> error + pyval" where
  "weighted_loop [] tool_scores total_score = Inr total_score"
| "weighted_loop ((criterion, weight) # rest) tool_scores total_score =
     (case tool_scores criterion of
        None \<Rightarrow> weighted_loop rest tool_scores total_score
      | Some v \<Rightarrow>
          (case py_mul v weight of
             Inl e \<Rightarrow> Inl e
           | Inr p \<Rightarrow>
               (case py_add total_score p of
                  Inl e \<Rightarrow> Inl e
                | Inr t \<Rightarrow> weighted_loop rest tool_scores t)))"

text \<open>The function body for a given value of the global table.\<close>

definition calculate_weighted_score_in :: "weights \<Rightarrow> row \<Rightarrow> error + pyval" where
  "calculate_weighted_score_in table tool_scores =
     (case weighted_loop table tool_scores (PyInt 0) of
        Inl e \<Rightarrow> Inl e
      | Inr total_score \<Rightarrow> py_round2 total_score)"

definition calculate_weighted_score :: "row \<Rightarrow> error + pyval" where
  "calculate_weighted_score tool_scores = calculate_weighted_score_in CRITERIA_WEIGHTS tool_scores"

section \<open>The ranker\<close>

text \<open>
  A \<^verbatim>\<open>DataFrame\<close> is the list of its rows, top to bottom; a row maps a column name to the
  cell's value, as \<^verbatim>\<open>row.to_dict()\<close> does. Data frames are mutable objects, so they live in a
  heap and are passed by address: \<open>h ! a\<close> is the frame at address \<open>a\<close>, and a new object
  takes the next free address.
\<close>

type_synonym dataframe = "row list"

type_synonym heap = "dataframe list"

text \<open>\<^verbatim>\<open>dataframe.copy()\<close>: a new object holding the same rows.\<close>

definition df_copy :: "heap \<Rightarrow> nat \<Rightarrow> heap \<times> nat" where
  "df_copy h a = (h @ [h ! a], length h)"

text \<open>
  \<^verbatim>\<open>df.apply(lambda row: f(row.to_dict()), axis=1)\<close>: \<open>f\<close> on each row from the top; the first
  exception ends the call.
\<close>

fun df_apply :: "(row \<Rightarrow> error + pyval) \<Rightarrow> dataframe \<Rightarrow> error + pyval list" where
  "df_apply f [] = Inr []"
| "df_apply f (r # rs) =
     (case f r of
        Inl e \<Rightarrow> Inl e
      | Inr v \<Rightarrow> (case df_apply f rs of Inl e \<Rightarrow> Inl e | Inr vs \<Rightarrow> Inr (v # vs)))"

text \<open>
  A numeric column is held as \<^verbatim>\<open>float64\<close>. (When every score is the \<^verbatim>\<open>int\<close> 0 pandas keeps
  \<^verbatim>\<open>int64\<close> zeros; they equal the float zeros of the model.)
\<close>

fun to_float64 :: "pyval \<Rightarrow> error + pyfloat" where
  "to_float64 (PyInt n) = float_of_int n"
| "to_float64 (PyFloat x) = Inr x"
| "to_float64 (PyStr s) = Inl TypeError"
| "to_float64 PyNone = Inl TypeError"

fun series_float64 :: "pyval list \<Rightarrow> error + pyfloat list" where
  "series_float64 [] = Inr []"
| "series_float64 (v # vs) =
     (case to_float64 v of
        Inl e \<Rightarrow> Inl e
      | Inr x \<Rightarrow> (case series_float64 vs of Inl e \<Rightarrow> Inl e | Inr xs \<Rightarrow> Inr (x # xs)))"

text \<open>\<^verbatim>\<open>df[name] = values\<close>, one value per row, and \<^verbatim>\<open>df[name]\<close>.\<close>

definition df_set_column :: "string \<Rightarrow> pyval list \<Rightarrow> dataframe \<Rightarrow> dataframe" where
  "df_set_column name vals rows = map (\<lambda>(r, v). r(name \<mapsto> v)) (zip rows vals)"

fun df_get_column :: "string \<Rightarrow> dataframe \<Rightarrow> error + pyval list" where
  "df_get_column name [] = Inr []"
| "df_get_column name (r # rs) =
     (case r name of
        None \<Rightarrow> Inl KeyError
      | Some v \<Rightarrow> (case df_get_column name rs of Inl e \<Rightarrow> Inl e | Inr vs \<Rightarrow> Inr (v # vs)))"

text \<open>
  \<^verbatim>\<open>Series.rank(ascending=False, method='dense')\<close>: the rank of a value is one more than the
  number of distinct values above it; a NaN keeps a NaN rank (\<^verbatim>\<open>na_option='keep'\<close>), here \<open>None\<close>.
\<close>

definition rank_dense_desc :: "pyfloat list \<Rightarrow> int option list" where
  "rank_dense_desc xs =
     map (\<lambda>x. if x = NaN then None
              else Some (1 + int (length (remdups (filter (\<lambda>y. fless x y) xs))))) xs"

text \<open>\<^verbatim>\<open>.astype(int)\<close> raises a \<^verbatim>\<open>ValueError\<close> (\<^verbatim>\<open>IntCastingNaNError\<close>) on a NaN.\<close>

fun astype_int :: "int option list \<Rightarrow> error + int list" where
  "astype_int [] = Inr []"
| "astype_int (None # ks) = Inl ValueError"
| "astype_int (Some k # ks) =
     (case astype_int ks of Inl e \<Rightarrow> Inl e | Inr js \<Rightarrow> Inr (k # js))"

text \<open>
  \<^verbatim>\<open>df.sort_values(name)\<close> on an integer column: pandas asks numpy for the permutation that
  sorts the keys and takes the rows in that order, as a new frame. The call names no
  \<^verbatim>\<open>kind\<close>, so numpy's default sort is used; it is a parameter of the model. What the library
  promises of it is that it returns a permutation of the positions along which the keys
  ascend (\<open>is_argsort\<close>); it does not promise to keep equal keys in their order.
\<close>

type_synonym argsort = "int list \<Rightarrow> nat list"

definition is_argsort :: "argsort \<Rightarrow> bool" where
  "is_argsort sorter \<longleftrightarrow>
     (\<forall>keys. mset (sorter keys) = mset [0..<length keys]
           \<and> sorted (map (\<lambda>i. keys ! i) (sorter keys)))"

fun int_keys :: "pyval list \<Rightarrow> error + int list" where
  "int_keys [] = Inr []"
| "int_keys (PyInt k # vs) =
     (case int_keys vs of Inl e \<Rightarrow> Inl e | Inr ks \<Rightarrow> Inr (k # ks))"
| "int_keys (v # vs) = Inl TypeError"

definition df_sort_values :: "argsort \<Rightarrow> string \<Rightarrow> dataframe \<Rightarrow> error + dataframe" where
  "df_sort_values sorter name rows =
     (case df_get_column name rows of
        Inl e \<Rightarrow> Inl e
      | Inr col \<Rightarrow>
          (case int_keys col of
             Inl e \<Rightarrow> Inl e
           | Inr keys \<Rightarrow>
               (let idx = sorter keys
                in if list_all (\<lambda>i. i < length rows) idx
                   then Inr (map (\<lambda>i. rows ! i) idx)
                   else Inl IndexError)))"

text \<open>
  \<^verbatim>\<open>evaluate_tools(dataframe)\<close>, statement by statement, for a given value of the global
  weight table. It returns the new heap and the address of the frame it returns.
\<close>

definition evaluate_tools_in :: "argsort \<Rightarrow> weights \<Rightarrow> heap \<Rightarrow> nat \<Rightarrow> error + heap \<times> nat" where
  "evaluate_tools_in sorter table h dataframe =
     (let (h1, df) = df_copy h dataframe
      in case df_apply (calculate_weighted_score_in table) (h1 ! df) of
           Inl e \<Rightarrow> Inl e
         | Inr results \<Rightarrow>
      (case series_float64 results of
           Inl e \<Rightarrow> Inl e
         | Inr scores \<Rightarrow>
      (let h2 = h1[df := df_set_column ''business_score'' (map PyFloat scores) (h1 ! df)]
       in case df_get_column ''business_score'' (h2 ! df) of
           Inl e \<Rightarrow> Inl e
         | Inr col \<Rightarrow>
      (case series_float64 col of
           Inl e \<Rightarrow> Inl e
         | Inr business_score \<Rightarrow>
      (case astype_int (rank_dense_desc business_score) of
           Inl e \<Rightarrow> Inl e
         | Inr ranks \<Rightarrow>
      (let h3 = h2[df := df_set_column ''rank'' (map PyInt ranks) (h2 ! df)]
       in case df_sort_values sorter ''rank'' (h3 ! df) of
           Inl e \<Rightarrow> Inl e
         | Inr sorted_rows \<Rightarrow> Inr (h3 @ [sorted_rows], length h3)))))))"

definition evaluate_tools :: "argsort \<Rightarrow> heap \<Rightarrow> nat \<Rightarrow> error + heap \<times> nat" where
  "evaluate_tools sorter h dataframe = evaluate_tools_in sorter CRITERIA_WEIGHTS h dataframe"

text \<open>
  A stable sort is one sort that keeps the library's promise.
\<close>

definition stable_argsort :: argsort where
  "stable_argsort keys = sort_key (\<lambda>i. keys ! i) [0..<length keys]"

text \<open>
  numpy's default \<^verbatim>\<open>argsort\<close> (\<^verbatim>\<open>kind='quicksort'\<close>) on 64-bit integer keys, as its vectorised
  code runs it on at most eight keys: the keys fill the first of eight lanes, each with its
  position, the other lanes hold a key above all others (\<open>None\<close>), and the lanes go through a
  bitonic network of compare-exchange steps. A step exchanges two lanes when the key of the
  first is strictly above the key of the second, so equal keys stay where the earlier steps
  have put them. Longer key lists take other paths of the library, which are not modelled;
  the definition sorts them stably.
\<close>

type_synonym lane = "int option \<times> nat"

definition key_above :: "int option \<Rightarrow> int option \<Rightarrow> bool" where
  "key_above x y =
     (case (x, y) of
        (Some a, Some b) \<Rightarrow> b < a
      | (None, Some b) \<Rightarrow> True
      | _ \<Rightarrow> False)"

definition compare_exchange :: "nat \<times> nat \<Rightarrow> lane list \<Rightarrow> lane list" where
  "compare_exchange =
     (\<lambda>(i, j) lanes.
        if key_above (fst (lanes ! i)) (fst (lanes ! j))
        then lanes[i := lanes ! j, j := lanes ! i]
        else lanes)"

definition bitonic8 :: "(nat \<times> nat) list" where
  "bitonic8 =
     [(0, 1), (2, 3), (4, 5), (6, 7),
      (0, 3), (1, 2), (4, 7), (5, 6),
      (0, 1), (2, 3), (4, 5), (6, 7),
      (0, 7), (1, 6), (2, 5), (3, 4),
      (0, 2), (1, 3), (4, 6), (5, 7),
      (0, 1), (2, 3), (4, 5), (6, 7)]"

definition simd_argsort :: argsort where
  "simd_argsort keys =
     (if length keys \<le> 8
      then map snd (take (length keys)
             (fold compare_exchange bitonic8
                (zip (map Some keys @ replicate (8 - length keys) None) [0..<8])))
      else stable_argsort keys)"

section \<open>Notions used to state the properties\<close>

text \<open>The exponent \<open>round_to_grid\<close> works at.\<close>

definition dexp :: "rat \<Rightarrow> int" where
  "dexp q = max (ilog2 \<bar>q\<bar>) (- 1022)"

text \<open>
  What \<open>evaluate_tools_in\<close> computes from the rows of its argument alone: the scored copy
  (in input order) and the frame it returns.
\<close>

definition annotate :: "dataframe \<Rightarrow> pyfloat list \<Rightarrow> int list \<Rightarrow> dataframe" where
  "annotate rows scores ranks =
     df_set_column ''rank'' (map PyInt ranks)
       (df_set_column ''business_score'' (map PyFloat scores) rows)"

definition evaluate_rows :: "argsort \<Rightarrow> weights \<Rightarrow> dataframe \<Rightarrow> error + dataframe \<times> dataframe" where
  "evaluate_rows sorter table rows =
     (case df_apply (calculate_weighted_score_in table) rows of
        Inl e \<Rightarrow> Inl e
      | Inr results \<Rightarrow>
     (case series_float64 results of
        Inl e \<Rightarrow> Inl e
      | Inr scores \<Rightarrow>
     (case astype_int (rank_dense_desc scores) of
        Inl e \<Rightarrow> Inl e
      | Inr ranks \<Rightarrow>
          if list_all (\<lambda>i. i < length rows) (sorter ranks)
          then Inr (annotate rows scores ranks,
                    map (\<lambda>i. annotate rows scores ranks ! i) (sorter ranks))
          else Inl IndexError)))"

text \<open>
  Dense ranking as the specification words it. \<open>dense_rank xs x\<close> is one more than the number
  of distinct values of \<open>xs\<close> above \<open>x\<close>. \<open>is_dense_ranking ss ks\<close>: records sharing a score share
  a rank, a higher score has a smaller rank, and the ranks are exactly \<open>1, \<dots>, n\<close> for the \<open>n\<close>
  distinct scores (rank 1 for the highest, none skipped).
\<close>

definition dense_rank :: "pyfloat list \<Rightarrow> pyfloat \<Rightarrow> int" where
  "dense_rank xs x = 1 + int (card {y \<in> set xs. fless x y})"

definition is_dense_ranking :: "pyfloat list \<Rightarrow> int list \<Rightarrow> bool" where
  "is_dense_ranking ss ks \<longleftrightarrow>
     length ks = length ss
     \<and> (\<forall>i<length ss. \<forall>j<length ss.
           (ks ! i = ks ! j \<longleftrightarrow> ss ! i = ss ! j)
           \<and> (ks ! i < ks ! j \<longleftrightarrow> fless (ss ! j) (ss ! i)))
     \<and> set ks = {1..int (card (set ss))}"

text \<open>An output record: the input record with the two columns set.\<close>

definition adds_score_and_rank :: "row \<Rightarrow> row \<Rightarrow> bool" where
  "adds_score_and_rank r r' \<longleftrightarrow>
     (\<exists>s k. r' = r(''business_score'' \<mapsto> PyFloat s, ''rank'' \<mapsto> PyInt k))"

text \<open>
  Example frames: three tools, two of them tied; four tools rated 3, 1, 5, 5; five tools with
  the scores 5, 5, 3, 3, 1.
\<close>

definition tool_A :: row where
  "tool_A = [''tool_name'' \<mapsto> PyStr ''A'', ''ease_of_use'' \<mapsto> PyInt 4]"

definition tool_B :: row where
  "tool_B = [''tool_name'' \<mapsto> PyStr ''B'', ''ease_of_use'' \<mapsto> PyInt 5]"

definition tool_C :: row where
  "tool_C = [''tool_name'' \<mapsto> PyStr ''C'', ''ease_of_use'' \<mapsto> PyInt 5]"

definition scored_A :: row where
  "scored_A = tool_A(''business_score'' \<mapsto> PyFloat (Fin (3602879701896397 / 4503599627370496)),
                     ''rank'' \<mapsto> PyInt 2)"

definition scored_B :: row where
  "scored_B = tool_B(''business_score'' \<mapsto> PyFloat (Fin 1), ''rank'' \<mapsto> PyInt 1)"

definition scored_C :: row where
  "scored_C = tool_C(''business_score'' \<mapsto> PyFloat (Fin 1), ''rank'' \<mapsto> PyInt 1)"

definition tool_W :: row where
  "tool_W = [''tool_name'' \<mapsto> PyStr ''W'', ''ease_of_use'' \<mapsto> PyInt 3]"

definition tool_X :: row where
  "tool_X = [''tool_name'' \<mapsto> PyStr ''X'', ''ease_of_use'' \<mapsto> PyInt 1]"

definition tool_Y :: row where
  "tool_Y = [''tool_name'' \<mapsto> PyStr ''Y'', ''ease_of_use'' \<mapsto> PyInt 5]"

definition tool_Z :: row where
  "tool_Z = [''tool_name'' \<mapsto> PyStr ''Z'', ''ease_of_use'' \<mapsto> PyInt 5]"

definition scored_W :: row where
  "scored_W = tool_W(''business_score'' \<mapsto> PyFloat (Fin (5404319552844595 / 9007199254740992)),
                     ''rank'' \<mapsto> PyInt 2)"

definition scored_X :: row where
  "scored_X = tool_X(''business_score'' \<mapsto> PyFloat (Fin (3602879701896397 / 18014398509481984)),
                     ''rank'' \<mapsto> PyInt 3)"

definition scored_Y :: row where
  "scored_Y = tool_Y(''business_score'' \<mapsto> PyFloat (Fin 1), ''rank'' \<mapsto> PyInt 1)"

definition scored_Z :: row where
  "scored_Z = tool_Z(''business_score'' \<mapsto> PyFloat (Fin 1), ''rank'' \<mapsto> PyInt 1)"

definition five_tools :: dataframe where
  "five_tools =
     [[''tool_name'' \<mapsto> PyStr ''P'', ''a'' \<mapsto> PyInt 5],
      [''tool_name'' \<mapsto> PyStr ''Q'', ''a'' \<mapsto> PyFloat (Fin 5)],
      [''tool_name'' \<mapsto> PyStr ''R'', ''a'' \<mapsto> PyInt 3],
      [''tool_name'' \<mapsto> PyStr ''S'', ''a'' \<mapsto> PyInt 3],
      [''tool_name'' \<mapsto> PyStr ''T'', ''a'' \<mapsto> PyInt 1]]"

definition five_tools_ranked :: dataframe where
  "five_tools_ranked =
     [[''tool_name'' \<mapsto> PyStr ''P'', ''a'' \<mapsto> PyInt 5,
       ''business_score'' \<mapsto> PyFloat (Fin 5), ''rank'' \<mapsto> PyInt 1],
      [''tool_name'' \<mapsto> PyStr ''Q'', ''a'' \<mapsto> PyFloat (Fin 5),
       ''business_score'' \<mapsto> PyFloat (Fin 5), ''rank'' \<mapsto> PyInt 1],
      [''tool_name'' \<mapsto> PyStr ''R'', ''a'' \<mapsto> PyInt 3,
       ''business_score'' \<mapsto> PyFloat (Fin 3), ''rank'' \<mapsto> PyInt 2],
      [''tool_name'' \<mapsto> PyStr ''S'', ''a'' \<mapsto> PyInt 3,
       ''business_score'' \<mapsto> PyFloat (Fin 3), ''rank'' \<mapsto> PyInt 2],
      [''tool_name'' \<mapsto> PyStr ''T'', ''a'' \<mapsto> PyInt 1,
       ''business_score'' \<mapsto> PyFloat (Fin 1), ''rank'' \<mapsto> PyInt 3]]"

text \<open>
  A float that is NaN, an infinity, or finite within the binary64 range; every float the
  arithmetic produces is one.
\<close>

definition bounded_float :: "pyfloat \<Rightarrow> bool" where
  "bounded_float x \<longleftrightarrow> (case x of Fin r \<Rightarrow> \<bar>r\<bar> \<le> dbl_max | _ \<Rightarrow> True)"

text \<open>
  The values \<^verbatim>\<open>total_score\<close> takes, with the range of the floats; the order in which the
  totals of two runs are compared.
\<close>

definition total_ok :: "pyval \<Rightarrow> bool" where
  "total_ok t \<longleftrightarrow> (case t of PyInt n \<Rightarrow> n = 0 | PyFloat x \<Rightarrow> bounded_float x | _ \<Rightarrow> False)"

definition total_le :: "pyval \<Rightarrow> pyval \<Rightarrow> bool" where
  "total_le t1 t2 \<longleftrightarrow>
     (case (t1, t2) of
        (PyInt m, PyInt n) \<Rightarrow> m = 0 \<and> n = 0
      | (PyFloat x, PyFloat y) \<Rightarrow> fle x y \<and> bounded_float x \<and> bounded_float y
      | _ \<Rightarrow> False)"

text \<open>
  Ratings: a number is an \<^verbatim>\<open>int\<close> or a \<^verbatim>\<open>float\<close>; an \<^verbatim>\<open>int\<close> is too large when its conversion to
  \<^verbatim>\<open>float\<close> overflows. A finite rating is an \<^verbatim>\<open>int\<close> that converts, or a finite \<^verbatim>\<open>float\<close> (a
  rational that binary64 represents exactly); \<open>rating_value\<close> is the real number it denotes.
  \<open>recognized_all P\<close> and \<open>recognized_ex P\<close> say that \<open>P\<close> holds of all, or of some, of the
  ratings given for criteria of the weight table.
\<close>

definition is_number :: "pyval \<Rightarrow> bool" where
  "is_number v \<longleftrightarrow> (case v of PyInt n \<Rightarrow> True | PyFloat x \<Rightarrow> True | _ \<Rightarrow> False)"

definition too_large :: "pyval \<Rightarrow> bool" where
  "too_large v \<longleftrightarrow> (case v of PyInt n \<Rightarrow> float_of_int n = Inl OverflowError | _ \<Rightarrow> False)"

definition finite_rating :: "pyval \<Rightarrow> bool" where
  "finite_rating v \<longleftrightarrow>
     (case v of
        PyInt n \<Rightarrow> float_of_int n \<noteq> Inl OverflowError
      | PyFloat (Fin a) \<Rightarrow> double_of_rat a = Fin a
      | _ \<Rightarrow> False)"

definition rating_value :: "pyval \<Rightarrow> rat" where
  "rating_value v = (case v of PyInt n \<Rightarrow> of_int n | PyFloat (Fin a) \<Rightarrow> a | _ \<Rightarrow> 0)"

definition recognized_all :: "(pyval \<Rightarrow> bool) \<Rightarrow> weights \<Rightarrow> row \<Rightarrow> bool" where
  "recognized_all P table ratings =
     list_all (\<lambda>(c, w). case ratings c of None \<Rightarrow> True | Some v \<Rightarrow> P v) table"

definition recognized_ex :: "(pyval \<Rightarrow> bool) \<Rightarrow> weights \<Rightarrow> row \<Rightarrow> bool" where
  "recognized_ex P table ratings =
     list_ex (\<lambda>(c, w). case ratings c of None \<Rightarrow> False | Some v \<Rightarrow> P v) table"

text \<open>
  \<open>ratings_le table r1 r2\<close>: the two mappings rate the same criteria of the table, with
  finite ratings, none smaller in \<open>r2\<close> than in \<open>r1\<close>.
\<close>

definition ratings_le :: "weights \<Rightarrow> row \<Rightarrow> row \<Rightarrow> bool" where
  "ratings_le table r1 r2 =
     list_all (\<lambda>(c, w).
       case (r1 c, r2 c) of
         (None, None) \<Rightarrow> True
       | (Some v1, Some v2) \<Rightarrow>
           finite_rating v1 \<and> finite_rating v2 \<and> rating_value v1 \<le> rating_value v2
       | _ \<Rightarrow> False) table"

text \<open>The number a score denotes, and a weight between 0 and 1.\<close>

definition score_value :: "pyval \<Rightarrow> pyfloat" where
  "score_value s = (case s of PyInt n \<Rightarrow> Fin (of_int n) | PyFloat x \<Rightarrow> x | _ \<Rightarrow> NaN)"

definition unit_weight :: "pyfloat \<Rightarrow> bool" where
  "unit_weight w \<longleftrightarrow> (case w of Fin q \<Rightarrow> 0 \<le> q \<and> q \<le> 1 | _ \<Rightarrow> False)"

text \<open>
  The sum of \<open>rating * weight\<close> over the criteria present in both mappings, as a number: the
  exact sum of the exact products of the numbers the ratings and the weights denote.
\<close>

definition weight_value :: "pyfloat \<Rightarrow> rat" where
  "weight_value w = (case w of Fin q \<Rightarrow> q | _ \<Rightarrow> 0)"

fun exact_sum :: "weights \<Rightarrow> row \<Rightarrow> rat" where
  "exact_sum [] ratings = 0"
| "exact_sum ((c, w) # table) ratings =
     (case ratings c of
        None \<Rightarrow> exact_sum table ratings
      | Some v \<Rightarrow> rating_value v * weight_value w + exact_sum table ratings)"

text \<open>
  The distance the float total can have from the exact sum. Rounding a number \<open>x\<close> to a float
  moves it by at most \<open>2 ^ -53 * \<bar>x\<bar> + 2 ^ -1075\<close>; for a table of \<open>n\<close> criteria and ratings of
  magnitude at most \<open>B\<close>, a criterion adds at most \<open>step_error n B\<close> (the rating converted, the
  product rounded, the partial sum rounded), and the whole loop at most \<open>sum_error n B\<close>.
\<close>

definition step_error :: "nat \<Rightarrow> rat \<Rightarrow> rat" where
  "step_error n B = pow2 (- 53) * B * (2 + 2 * of_nat n) + 3 * pow2 (- 1075)"

definition sum_error :: "nat \<Rightarrow> rat \<Rightarrow> rat" where
  "sum_error n B = of_nat n * step_error n B"

text \<open>A total that is a finite number, and the number it denotes.\<close>

definition finite_total :: "pyval \<Rightarrow> bool" where
  "finite_total t \<longleftrightarrow>
     (case t of PyInt n \<Rightarrow> n = 0 | PyFloat (Fin q) \<Rightarrow> \<bar>q\<bar> \<le> dbl_max | _ \<Rightarrow> False)"

definition total_value :: "pyval \<Rightarrow> rat" where
  "total_value t = (case t of PyInt n \<Rightarrow> of_int n | PyFloat (Fin q) \<Rightarrow> q | _ \<Rightarrow> 0)"

text \<open>
  Two mappings with the same ratings on criteria of equal weight, in another order; and a
  mapping that rates one criterion.
\<close>

definition ratings_1 :: row where
  "ratings_1 = [''cost_efficiency'' \<mapsto> PyFloat (Fin (3 / 2)), ''scalability'' \<mapsto> PyInt 1,
                ''paperwork_automation'' \<mapsto> PyInt 1]"

definition ratings_2 :: row where
  "ratings_2 = [''cost_efficiency'' \<mapsto> PyInt 1, ''scalability'' \<mapsto> PyInt 1,
                ''paperwork_automation'' \<mapsto> PyFloat (Fin (3 / 2))]"

section \<open>Properties of the float model\<close>



lemma rhe_floor_bounds:
  "\<lfloor>q\<rfloor> \<le> round_half_even q" "round_half_even q \<le> \<lfloor>q\<rfloor> + 1"
  by (simp_all add: round_half_even_def Let_def)

lemma rhe_of_int: "round_half_even (of_int n) = n"
  by (simp add: round_half_even_def)

lemma rhe_mono:
  assumes "a \<le> b"
  shows "round_half_even a \<le> round_half_even b"
proof (cases "\<lfloor>a\<rfloor> = \<lfloor>b\<rfloor>")
  case True
  with assms have "a - of_int \<lfloor>a\<rfloor> \<le> b - of_int \<lfloor>b\<rfloor>"
    by simp
  with True show ?thesis
    by (simp add: round_half_even_def Let_def)
next
  case False
  with assms have "\<lfloor>a\<rfloor> + 1 \<le> \<lfloor>b\<rfloor>"
    using floor_mono [of a b] by linarith
  with rhe_floor_bounds(2) [of a] rhe_floor_bounds(1) [of b] show ?thesis
    by linarith
qed

lemma rhe_minus: "round_half_even (- q) = - round_half_even q"
proof (cases "q \<in> \<int>")
  case True
  then obtain n where "q = of_int n"
    by (auto elim: Ints_cases)
  then show ?thesis
    using rhe_of_int [of n] rhe_of_int [of "- n"] by simp
next
  case False
  have ne: "q \<noteq> of_int \<lfloor>q\<rfloor>"
    using False by (metis Ints_of_int)
  have lt: "of_int \<lfloor>q\<rfloor> < q"
    using ne by (metis of_int_floor_le order_le_less)
  have ub: "q < of_int \<lfloor>q\<rfloor> + 1"
    by linarith
  have fl: "\<lfloor>- q\<rfloor> = - \<lfloor>q\<rfloor> - 1"
  proof (rule floor_unique)
    show "of_int (- \<lfloor>q\<rfloor> - 1) \<le> - q"
      using ub by simp
    show "- q < of_int (- \<lfloor>q\<rfloor> - 1) + 1"
      using lt by simp
  qed
  from ne show ?thesis
    unfolding round_half_even_def Let_def fl
    by (auto; (linarith | presburger)?)
qed



lemma pow2_powi: "pow2 e = 2 powi e"
  by (simp add: pow2_def power_int_def power_divide)

lemma pow2_pos: "0 < pow2 e"
  by (simp add: pow2_powi)

lemma pow2_add: "pow2 (a + b) = pow2 a * pow2 b"
  by (simp add: pow2_powi power_int_add)

lemma pow2_mono: "a \<le> b \<Longrightarrow> pow2 a \<le> pow2 b"
  by (simp add: pow2_powi power_int_increasing)

lemma pow2_neg_exp: "e \<le> 0 \<Longrightarrow> pow2 e = 1 / 2 ^ nat (- e)"
  by (simp add: pow2_def)

lemma ilog2_lower:
  assumes "0 < q"
  shows "pow2 (ilog2 q) \<le> q"
proof (cases "1 \<le> q")
  case True
  define n where "n = \<lfloor>q\<rfloor>"
  have n: "0 < n" using True by (simp add: n_def)
  have e: "ilog2 q = bitlen n - 1"
    using True by (simp add: ilog2_def n_def)
  have "0 \<le> bitlen n - 1"
    using n by (simp add: bitlen_alt_def)
  then have "pow2 (ilog2 q) = of_int (2 ^ nat (bitlen n - 1))"
    by (simp add: e pow2_def)
  also have "\<dots> \<le> of_int n"
    using bitlen_bounds [OF n] by (simp only: of_int_le_iff)
  also have "\<dots> \<le> q"
    by (simp add: n_def)
  finally show ?thesis .
next
  case False
  define m where "m = \<lceil>1 / q\<rceil> - 1"
  have x: "1 < 1 / q" using False assms by simp
  then have m: "0 < m" by (simp add: m_def)
  have e: "ilog2 q = - bitlen m"
    using False by (simp add: ilog2_def m_def)
  have k: "0 \<le> bitlen m" by (rule bitlen_nonneg)
  have "1 / q \<le> of_int (m + 1)"
    by (simp add: m_def)
  also have "m + 1 \<le> 2 ^ nat (bitlen m)"
    using bitlen_bounds [OF m] by simp
  finally have "1 / q \<le> 2 ^ nat (bitlen m)"
    by simp
  then have "1 / 2 ^ nat (bitlen m) \<le> q"
    using assms by (simp add: field_simps)
  then show ?thesis
    using k by (simp add: e pow2_neg_exp)
qed

lemma ilog2_upper:
  assumes "0 < q"
  shows "q < pow2 (ilog2 q + 1)"
proof (cases "1 \<le> q")
  case True
  define n where "n = \<lfloor>q\<rfloor>"
  have n: "0 < n" using True by (simp add: n_def)
  have e: "ilog2 q = bitlen n - 1"
    using True by (simp add: ilog2_def n_def)
  have "q < of_int (n + 1)"
    unfolding n_def by linarith
  also have "n + 1 \<le> 2 ^ nat (bitlen n)"
    using bitlen_bounds [OF n] by simp
  finally have "q < of_int (2 ^ nat (bitlen n))"
    by simp
  then show ?thesis
    using bitlen_nonneg [of n] by (simp add: e pow2_def)
next
  case False
  define m where "m = \<lceil>1 / q\<rceil> - 1"
  have x: "1 < 1 / q" using False assms by simp
  then have m: "0 < m" by (simp add: m_def)
  have e: "ilog2 q = - bitlen m"
    using False by (simp add: ilog2_def m_def)
  have k: "1 \<le> bitlen m" using m by (simp add: bitlen_alt_def)
  have "(2::rat) ^ nat (bitlen m - 1) = of_int (2 ^ nat (bitlen m - 1))"
    by simp
  also have "\<dots> \<le> of_int m"
    using bitlen_bounds [OF m] by (simp only: of_int_le_iff)
  also have "\<dots> < 1 / q"
    unfolding m_def by linarith
  finally have "2 ^ nat (bitlen m - 1) < 1 / q" .
  then have "q < 1 / 2 ^ nat (bitlen m - 1)"
    using assms by (simp add: field_simps)
  moreover have "pow2 (ilog2 q + 1) = 1 / 2 ^ nat (bitlen m - 1)"
    using k by (simp add: e pow2_neg_exp)
  ultimately show ?thesis by simp
qed



lemma pow2_less_cancel: "pow2 a < pow2 b \<Longrightarrow> a < b"
  using pow2_mono [of b a] by (cases "a < b") auto

lemma pow2_diff: "pow2 (a - b) = pow2 a / pow2 b"
  by (simp add: pow2_powi power_int_diff)

lemma ilog2_mono:
  assumes "0 < x" "x \<le> y"
  shows "ilog2 x \<le> ilog2 y"
proof -
  have "pow2 (ilog2 x) \<le> x"
    using assms by (intro ilog2_lower)
  also have "x \<le> y" by fact
  also have "y < pow2 (ilog2 y + 1)"
    using assms by (intro ilog2_upper) simp
  finally show ?thesis
    using pow2_less_cancel by fastforce
qed

lemma round_to_grid_alt:
  "round_to_grid q = of_int (round_half_even (q / pow2 (dexp q - 52))) * pow2 (dexp q - 52)"
  by (simp add: round_to_grid_def dexp_def Let_def)

lemma round_to_grid_minus: "round_to_grid (- q) = - round_to_grid q"
  by (simp add: round_to_grid_alt dexp_def rhe_minus)

lemma rhe_nonneg: "0 \<le> q \<Longrightarrow> 0 \<le> round_half_even q"
  using rhe_mono [of 0 q] rhe_of_int [of 0] by simp

lemma round_to_grid_nonneg: "0 \<le> q \<Longrightarrow> 0 \<le> round_to_grid q"
  using pow2_pos [of "dexp q - 52"]
  by (simp add: round_to_grid_alt rhe_nonneg less_imp_le)

lemma round_to_grid_upper:
  assumes "0 < x"
  shows "round_to_grid x \<le> pow2 (dexp x + 1)"
proof -
  let ?u = "pow2 (dexp x - 52)"
  have u: "0 < ?u" by (rule pow2_pos)
  have "x < pow2 (ilog2 x + 1)"
    using assms by (rule ilog2_upper)
  also have "\<dots> \<le> pow2 (dexp x + 1)"
    using assms by (intro pow2_mono) (simp add: dexp_def)
  finally have "x / ?u \<le> pow2 (dexp x + 1) / ?u"
    using u by (simp add: divide_right_mono)
  also have "pow2 (dexp x + 1) / ?u = pow2 53"
    by (simp flip: pow2_diff)
  also have "pow2 53 = of_int (2 ^ 53)"
    by (simp add: pow2_def)
  finally have "round_half_even (x / ?u) \<le> 2 ^ 53"
    using rhe_mono rhe_of_int by metis
  then have "of_int (round_half_even (x / ?u)) * ?u \<le> of_int (2 ^ 53) * ?u"
    using u by (intro mult_right_mono) (simp_all only: of_int_le_iff less_imp_le)
  also have "of_int (2 ^ 53) * ?u = pow2 53 * ?u"
    by (simp add: pow2_def)
  also have "\<dots> = pow2 (dexp x + 1)"
    using pow2_add [of 53 "dexp x - 52"] by (simp add: add.commute)
  finally show ?thesis
    by (simp add: round_to_grid_alt)
qed

lemma round_to_grid_lower:
  assumes "0 < y" "dexp y = ilog2 y"
  shows "pow2 (dexp y) \<le> round_to_grid y"
proof -
  let ?u = "pow2 (dexp y - 52)"
  have u: "0 < ?u" by (rule pow2_pos)
  have "pow2 52 = pow2 (dexp y) / ?u"
    by (simp flip: pow2_diff)
  also have "\<dots> \<le> y / ?u"
    using u assms ilog2_lower [of y] by (simp add: divide_right_mono)
  finally have "of_int (2 ^ 52) \<le> y / ?u"
    by (simp add: pow2_def)
  then have "2 ^ 52 \<le> round_half_even (y / ?u)"
    using rhe_mono rhe_of_int by metis
  then have "of_int (2 ^ 52) * ?u \<le> of_int (round_half_even (y / ?u)) * ?u"
    using u by (intro mult_right_mono) (simp_all only: of_int_le_iff less_imp_le)
  moreover have "of_int (2 ^ 52) * ?u = pow2 52 * ?u"
    by (simp add: pow2_def)
  moreover have "pow2 52 * ?u = pow2 (dexp y)"
    by (simp flip: pow2_add)
  ultimately show ?thesis
    by (simp add: round_to_grid_alt)
qed

lemma round_to_grid_mono_pos:
  assumes "0 < x" "x \<le> y"
  shows "round_to_grid x \<le> round_to_grid y"
proof -
  have y: "0 < y" using assms by simp
  have le: "dexp x \<le> dexp y"
    using ilog2_mono [of x y] assms by (simp add: dexp_def)
  show ?thesis
  proof (cases "dexp x = dexp y")
    case True
    let ?u = "pow2 (dexp y - 52)"
    have u: "0 < ?u" by (rule pow2_pos)
    have "x / ?u \<le> y / ?u"
      using u assms by (simp add: divide_right_mono)
    then have "round_half_even (x / ?u) \<le> round_half_even (y / ?u)"
      by (rule rhe_mono)
    then have "of_int (round_half_even (x / ?u)) * ?u \<le> of_int (round_half_even (y / ?u)) * ?u"
      using u by (intro mult_right_mono) (simp_all only: of_int_le_iff less_imp_le)
    then show ?thesis
      by (simp add: round_to_grid_alt True)
  next
    case False
    with le have lt: "dexp x + 1 \<le> dexp y" by simp
    then have "dexp y = ilog2 y"
      using y by (simp add: dexp_def max_def split: if_splits)
    then have "pow2 (dexp y) \<le> round_to_grid y"
      using y by (intro round_to_grid_lower)
    moreover have "round_to_grid x \<le> pow2 (dexp x + 1)"
      using assms by (intro round_to_grid_upper)
    moreover have "pow2 (dexp x + 1) \<le> pow2 (dexp y)"
      using lt by (rule pow2_mono)
    ultimately show ?thesis by linarith
  qed
qed

lemma round_to_grid_zero: "round_to_grid 0 = 0"
  by (simp add: round_to_grid_alt rhe_of_int [of 0, simplified])

lemma round_to_grid_mono:
  assumes "x \<le> y"
  shows "round_to_grid x \<le> round_to_grid y"
proof -
  consider "0 < x" | "y < 0" | "x \<le> 0" "0 \<le> y"
    by linarith
  then show ?thesis
  proof cases
    case 1
    then show ?thesis using assms by (rule round_to_grid_mono_pos)
  next
    case 2
    then have "round_to_grid (- y) \<le> round_to_grid (- x)"
      using assms by (intro round_to_grid_mono_pos) simp_all
    then show ?thesis by (simp add: round_to_grid_minus)
  next
    case 3
    have "round_to_grid x \<le> 0"
      using round_to_grid_nonneg [of "- x"] 3 by (simp add: round_to_grid_minus)
    moreover have "0 \<le> round_to_grid y"
      using 3 by (intro round_to_grid_nonneg)
    ultimately show ?thesis by simp
  qed
qed

lemma dbl_max_pos: "0 < dbl_max"
  by (simp add: dbl_max_def pow2_pos)

lemma round_to_grid_dbl_max: "round_to_grid dbl_max = dbl_max"
  by code_simp

lemma dbl_max_int: "dbl_max = of_int ((2 ^ 53 - 1) * 2 ^ 971)"
  by (simp add: dbl_max_def pow2_def)

lemma double_of_rat_alt:
  "double_of_rat q =
     (if dbl_max < round_to_grid q then PInf
      else if round_to_grid q < - dbl_max then NInf else Fin (round_to_grid q))"
  using dbl_max_pos by (simp add: double_of_rat_def round_to_grid_zero Let_def)

lemma double_of_rat_bounded: "bounded_float (double_of_rat q)"
  by (auto simp: double_of_rat_alt bounded_float_def)

lemma double_of_rat_finite:
  assumes "\<bar>q\<bar> \<le> dbl_max"
  shows "double_of_rat q = Fin (round_to_grid q)"
proof -
  have "round_to_grid q \<le> round_to_grid dbl_max"
    using assms by (intro round_to_grid_mono) simp
  moreover have "round_to_grid (- dbl_max) \<le> round_to_grid q"
    using assms by (intro round_to_grid_mono) simp
  ultimately show ?thesis
    by (simp add: double_of_rat_alt round_to_grid_minus round_to_grid_dbl_max)
qed

lemma double_of_rat_mono:
  assumes "x \<le> y"
  shows "fle (double_of_rat x) (double_of_rat y)"
  using round_to_grid_mono [OF assms] dbl_max_pos
  by (auto simp: double_of_rat_alt)

lemma double_of_rat_not_NaN: "double_of_rat q \<noteq> NaN"
  by (simp add: double_of_rat_alt)

lemma round_2dp_mono: "a \<le> b \<Longrightarrow> round_2dp a \<le> round_2dp b"
  by (simp add: round_2dp_def divide_right_mono rhe_mono)

lemma round_2dp_minus: "round_2dp (- q) = - round_2dp q"
  by (simp add: round_2dp_def rhe_minus)

lemma round_2dp_dbl_max: "round_2dp dbl_max = dbl_max"
proof -
  have "dbl_max * 100 = of_int ((2 ^ 53 - 1) * 2 ^ 971 * 100)"
    by (simp add: dbl_max_int)
  then have "round_half_even (dbl_max * 100) = (2 ^ 53 - 1) * 2 ^ 971 * 100"
    by (simp only: rhe_of_int)
  then show ?thesis
    by (simp add: round_2dp_def dbl_max_int)
qed

lemma round_2dp_bounded:
  assumes "\<bar>q\<bar> \<le> dbl_max"
  shows "\<bar>round_2dp q\<bar> \<le> dbl_max"
proof -
  have "round_2dp q \<le> round_2dp dbl_max"
    using assms by (intro round_2dp_mono) simp
  moreover have "round_2dp (- dbl_max) \<le> round_2dp q"
    using assms by (intro round_2dp_mono) simp
  ultimately show ?thesis
    by (simp add: round_2dp_minus round_2dp_dbl_max abs_le_iff)
qed

lemma py_round2_float:
  assumes "bounded_float x"
  shows "py_round2 (PyFloat x) =
     Inr (PyFloat (case x of Fin q \<Rightarrow> Fin (round_to_grid (round_2dp q)) | _ \<Rightarrow> x))"
proof (cases x)
  case (Fin q)
  with assms have "\<bar>round_2dp q\<bar> \<le> dbl_max"
    by (simp add: bounded_float_def round_2dp_bounded)
  then show ?thesis
    by (simp add: Fin double_of_rat_finite)
qed simp_all

lemma fadd_bounded: "bounded_float (fadd x y)"
  by (cases x; cases y) (simp_all add: double_of_rat_bounded, simp_all add: bounded_float_def)

lemma fmul_bounded: "bounded_float (fmul x y)"
  by (cases x; cases y) (simp_all add: double_of_rat_bounded, simp_all add: bounded_float_def)

section \<open>The scorer\<close>

lemma float_of_int_0: "float_of_int 0 = Inr (Fin 0)"
  by (simp add: float_of_int_def double_of_rat_def)

section \<open>Missing and extra criteria\<close>


lemma weighted_loop_skips_absent:
  "weighted_loop (filter (\<lambda>(c, w). ratings c \<noteq> None) table) ratings t
     = weighted_loop table ratings t"
proof (induction table arbitrary: t)
  case Nil
  show ?case by simp
next
  case (Cons cw table)
  obtain c w where cw: "cw = (c, w)" by (cases cw)
  show ?case
    using Cons.IH by (cases "ratings c") (simp_all add: cw split: sum.splits)
qed

lemma weighted_loop_ignores_extra:
  "set (map fst table) \<subseteq> S \<Longrightarrow>
   weighted_loop table (ratings |` S) t = weighted_loop table ratings t"
proof (induction table arbitrary: t)
  case Nil
  show ?case by simp
next
  case (Cons cw table)
  obtain c w where cw: "cw = (c, w)" by (cases cw)
  from Cons.prems have c: "c \<in> S" and rest: "set (map fst table) \<subseteq> S"
    by (simp_all add: cw)
  show ?case
    by (cases "ratings c") (simp_all add: cw c Cons.IH [OF rest] split: sum.splits)
qed

text \<open>
  C4. Which criteria are present never makes the score fail. A criterion of the weight
  table that the ratings lack is skipped: the score, or the exception, is that of the table
  without it. A rating whose criterion is not in the table is ignored, whatever its value:
  the score is that of the ratings restricted to the table's criteria. With the weights
  \<open>{a: 0.5, b: 0.5}\<close> and the ratings \<open>{a: 4}\<close> the score is \<open>2.0\<close>; with the weights \<open>{a: 1.0}\<close>
  and the ratings \<open>{a: 5, z: 100}\<close> it is \<open>5.0\<close>.
\<close>

theorem score_tolerates_missing_and_extra_criteria:
  "calculate_weighted_score_in table ratings
     = calculate_weighted_score_in (filter (\<lambda>(c, w). ratings c \<noteq> None) table) ratings
   \<and> calculate_weighted_score_in table ratings
     = calculate_weighted_score_in table (ratings |` set (map fst table))
   \<and> calculate_weighted_score_in
        [(''a'', double_of_rat (5 / 10)), (''b'', double_of_rat (5 / 10))]
        [''a'' \<mapsto> PyInt 4] = Inr (PyFloat (Fin 2))
   \<and> calculate_weighted_score_in [(''a'', double_of_rat 1)]
        [''a'' \<mapsto> PyInt 5, ''z'' \<mapsto> PyInt 100] = Inr (PyFloat (Fin 5))"
proof (intro conjI)
  show "calculate_weighted_score_in table ratings
     = calculate_weighted_score_in (filter (\<lambda>(c, w). ratings c \<noteq> None) table) ratings"
    by (simp only: calculate_weighted_score_in_def weighted_loop_skips_absent)
  show "calculate_weighted_score_in table ratings
     = calculate_weighted_score_in table (ratings |` set (map fst table))"
    by (simp only: calculate_weighted_score_in_def weighted_loop_ignores_extra [OF subset_refl])
  show "calculate_weighted_score_in
        [(''a'', double_of_rat (5 / 10)), (''b'', double_of_rat (5 / 10))]
        [''a'' \<mapsto> PyInt 4] = Inr (PyFloat (Fin 2))"
    by code_simp
  show "calculate_weighted_score_in [(''a'', double_of_rat 1)]
        [''a'' \<mapsto> PyInt 5, ''z'' \<mapsto> PyInt 100] = Inr (PyFloat (Fin 5))"
    by code_simp
qed

section \<open>When the score fails\<close>

lemma float_of_int_cases:
  obtains q where "float_of_int n = Inr (Fin q)" "\<bar>q\<bar> \<le> dbl_max" "q = round_to_grid (of_int n)"
  | "float_of_int n = Inl OverflowError"
  by (cases "double_of_rat (of_int n)")
     (auto simp: float_of_int_def double_of_rat_alt split: if_splits)

lemma py_mul_cases:
  obtains p where "py_mul v w = Inr p" "bounded_float p" "is_number v" "\<not> too_large v"
  | "py_mul v w = Inl TypeError" "\<not> is_number v"
  | "py_mul v w = Inl OverflowError" "is_number v" "too_large v"
proof (cases v)
  case (PyInt n)
  then show ?thesis
    using that by (cases n rule: float_of_int_cases)
      (auto simp: is_number_def too_large_def fmul_bounded)
qed (use that in \<open>auto simp: is_number_def too_large_def fmul_bounded\<close>)

lemma py_add_total_ok:
  assumes "total_ok t"
  obtains x where "py_add t p = Inr (PyFloat x)" "bounded_float x"
  using assms by (cases t) (auto simp: total_ok_def float_of_int_0 fadd_bounded)

lemma recognized_all_Cons:
  "recognized_all P ((c, w) # table) r \<longleftrightarrow>
     (case r c of None \<Rightarrow> True | Some v \<Rightarrow> P v) \<and> recognized_all P table r"
  by (simp add: recognized_all_def)

lemma recognized_ex_Cons:
  "recognized_ex P ((c, w) # table) r \<longleftrightarrow>
     (case r c of None \<Rightarrow> False | Some v \<Rightarrow> P v) \<or> recognized_ex P table r"
  by (simp add: recognized_ex_def)

lemma weighted_loop_outcome:
  assumes "total_ok t"
  shows "(\<exists>u. weighted_loop table r t = Inr u \<and> total_ok u
            \<and> recognized_all (\<lambda>v. is_number v \<and> \<not> too_large v) table r)
       \<or> (weighted_loop table r t = Inl TypeError
            \<and> recognized_ex (\<lambda>v. \<not> is_number v) table r)
       \<or> (weighted_loop table r t = Inl OverflowError
            \<and> recognized_ex (\<lambda>v. is_number v \<and> too_large v) table r)"
  using assms
proof (induction table arbitrary: t)
  case Nil
  then show ?case by (simp add: recognized_all_def)
next
  case (Cons cw table)
  obtain c w where cw: "cw = (c, w)" by (cases cw)
  show ?case
  proof (cases "r c")
    case None
    with Cons.IH [OF Cons.prems] show ?thesis
      by (simp add: cw recognized_all_Cons recognized_ex_Cons)
  next
    case (Some v)
    show ?thesis
    proof (rule py_mul_cases [of v w])
      fix p assume 1: "py_mul v w = Inr p" "bounded_float p" "is_number v" "\<not> too_large v"
      from Cons.prems obtain x where add: "py_add t p = Inr (PyFloat x)" and "bounded_float x"
        by (rule py_add_total_ok)
      then have "total_ok (PyFloat x)" by (simp add: total_ok_def)
      from Cons.IH [OF this] 1 add show ?thesis
        by (simp add: cw Some recognized_all_Cons recognized_ex_Cons)
    next
      assume "py_mul v w = Inl TypeError" "\<not> is_number v"
      then show ?thesis
        by (simp add: cw Some recognized_ex_Cons)
    next
      assume "py_mul v w = Inl OverflowError" "is_number v" "too_large v"
      then show ?thesis
        by (simp add: cw Some recognized_ex_Cons)
    qed
  qed
qed

lemma py_round2_total_ok:
  assumes "total_ok u"
  obtains s where "py_round2 u = Inr s"
  using assms by (cases u) (auto simp: total_ok_def py_round2_float)

lemma score_of_string_rating:
  "calculate_weighted_score [''ease_of_use'' \<mapsto> PyStr ''high''] = Inl TypeError"
  by code_simp

lemma score_of_huge_rating:
  "calculate_weighted_score [''ease_of_use'' \<mapsto> PyInt (2 ^ 1024)] = Inl OverflowError"
  by code_simp

lemma tool_A_ratings_numeric:
  "recognized_all (\<lambda>v. is_number v \<and> \<not> too_large v) CRITERIA_WEIGHTS tool_A"
  by code_simp

text \<open>
  C5, as stated, has a non-numeric rating signalled as an \<open>InvalidRatingError\<close>, and every
  numeric rating accepted. The source raises Python's \<^verbatim>\<open>TypeError\<close> for a string rating, and
  an \<^verbatim>\<open>OverflowError\<close> for the number \<open>2 ^ 1024\<close>:
\<close>

theorem invalid_rating_counterexample:
  "calculate_weighted_score [''ease_of_use'' \<mapsto> PyStr ''high''] = Inl TypeError
   \<and> calculate_weighted_score [''ease_of_use'' \<mapsto> PyStr ''high''] \<noteq> Inl InvalidRatingError
   \<and> is_number (PyInt (2 ^ 1024))
   \<and> calculate_weighted_score [''ease_of_use'' \<mapsto> PyInt (2 ^ 1024)] = Inl OverflowError"
  using score_of_string_rating score_of_huge_rating by (simp add: is_number_def)

text \<open>
  C5, amended. The score fails exactly when, for some criterion of the weight table, the
  rating is not a number or is an \<^verbatim>\<open>int\<close> too large for a \<^verbatim>\<open>float\<close>. The failure reaches the
  caller as \<^verbatim>\<open>TypeError\<close> in the first case and as \<^verbatim>\<open>OverflowError\<close> in the second, and as no
  other exception. For all inputs whose ratings for the table's criteria are floats or ints
  within the float range, the score succeeds.
\<close>

theorem score_failures:
  "((\<exists>s. calculate_weighted_score_in table ratings = Inr s)
      \<longleftrightarrow> recognized_all (\<lambda>v. is_number v \<and> \<not> too_large v) table ratings)
   \<and> (calculate_weighted_score_in table ratings = Inl e \<longrightarrow>
        (e = TypeError \<and> recognized_ex (\<lambda>v. \<not> is_number v) table ratings)
      \<or> (e = OverflowError \<and> recognized_ex (\<lambda>v. is_number v \<and> too_large v) table ratings))"
proof -
  have t0: "total_ok (PyInt 0)" by (simp add: total_ok_def)
  from weighted_loop_outcome [OF t0, of table ratings]
  consider
    (ok) u where "weighted_loop table ratings (PyInt 0) = Inr u" "total_ok u"
      "recognized_all (\<lambda>v. is_number v \<and> \<not> too_large v) table ratings"
  | (type) "weighted_loop table ratings (PyInt 0) = Inl TypeError"
      "recognized_ex (\<lambda>v. \<not> is_number v) table ratings"
  | (overflow) "weighted_loop table ratings (PyInt 0) = Inl OverflowError"
      "recognized_ex (\<lambda>v. is_number v \<and> too_large v) table ratings"
    by blast
  then show ?thesis
  proof cases
    case ok
    from ok(2) obtain s where "py_round2 u = Inr s"
      by (rule py_round2_total_ok)
    with ok show ?thesis
      by (simp add: calculate_weighted_score_in_def)
  next
    case type
    from type(2) have "\<not> recognized_all (\<lambda>v. is_number v \<and> \<not> too_large v) table ratings"
      by (induction table)
        (auto simp: recognized_all_def recognized_ex_def split: option.splits)
    with type show ?thesis
      by (simp add: calculate_weighted_score_in_def)
  next
    case overflow
    from overflow(2) have "\<not> recognized_all (\<lambda>v. is_number v \<and> \<not> too_large v) table ratings"
      by (induction table)
        (auto simp: recognized_all_def recognized_ex_def split: option.splits)
    with overflow show ?thesis
      by (simp add: calculate_weighted_score_in_def)
  qed
qed

theorem score_failures_witness:
  "calculate_weighted_score_in CRITERIA_WEIGHTS [''ease_of_use'' \<mapsto> PyStr ''high''] = Inl TypeError
   \<and> recognized_ex (\<lambda>v. \<not> is_number v) CRITERIA_WEIGHTS [''ease_of_use'' \<mapsto> PyStr ''high'']
   \<and> \<not> recognized_all (\<lambda>v. is_number v \<and> \<not> too_large v) CRITERIA_WEIGHTS
         [''ease_of_use'' \<mapsto> PyStr ''high'']
   \<and> recognized_all (\<lambda>v. is_number v \<and> \<not> too_large v) CRITERIA_WEIGHTS tool_A
   \<and> (\<exists>s. calculate_weighted_score_in CRITERIA_WEIGHTS tool_A = Inr s)"
  using score_failures [of CRITERIA_WEIGHTS "[''ease_of_use'' \<mapsto> PyStr ''high'']" TypeError]
    score_failures [of CRITERIA_WEIGHTS tool_A TypeError]
    score_of_string_rating [unfolded calculate_weighted_score_def] tool_A_ratings_numeric
  by simp

section \<open>The rounding rule\<close>

lemma weighted_loop_total_ok:
  assumes "total_ok t" "weighted_loop table r t = Inr u"
  shows "total_ok u"
  using weighted_loop_outcome [OF assms(1), of table r] assms(2) by auto

lemma rhe_nearest:
  "\<bar>q - of_int (round_half_even q)\<bar> \<le> 1 / 2
   \<and> (\<bar>q - of_int (round_half_even q)\<bar> = 1 / 2 \<longrightarrow> even (round_half_even q))"
proof -
  define f d where "f = \<lfloor>q\<rfloor>" and "d = q - of_int f"
  have d: "0 \<le> d" "d < 1"
    unfolding d_def f_def by linarith+
  have r: "round_half_even q =
      (if d < 1 / 2 then f else if 1 / 2 < d then f + 1 else if even f then f else f + 1)"
    by (simp add: round_half_even_def Let_def f_def d_def)
  consider "d < 1 / 2" | "1 / 2 < d" | "d = 1 / 2" "even f" | "d = 1 / 2" "odd f"
    by linarith
  then show ?thesis
  proof cases
    case 1
    then have "round_half_even q = f" by (simp add: r)
    moreover have "q - of_int f = d" by (simp add: d_def)
    ultimately show ?thesis using 1 d by simp
  next
    case 2
    then have "round_half_even q = f + 1" by (simp add: r)
    moreover have "q - of_int (f + 1) = d - 1" by (simp add: d_def)
    ultimately show ?thesis using 2 d by simp
  next
    case 3
    then have "round_half_even q = f" by (simp add: r)
    moreover have "q - of_int f = d" by (simp add: d_def)
    ultimately show ?thesis using 3 by simp
  next
    case 4
    then have "round_half_even q = f + 1" by (simp add: r)
    moreover have "q - of_int (f + 1) = d - 1" by (simp add: d_def)
    ultimately show ?thesis using 4 by simp
  qed
qed

lemma score_3005:
  "weighted_loop [(''a'', double_of_rat 1)] [''a'' \<mapsto> PyFloat (double_of_rat (3005 / 1000))]
     (PyInt 0) = Inr (PyFloat (Fin (3383329220062085 / 1125899906842624)))"
  by code_simp

text \<open>
  C8. The score is the total rounded to 2 decimal places by one fixed rule, the one Python
  documents for \<^verbatim>\<open>round\<close>: round half to even. When the total is the finite float \<open>q\<close>, the
  score is the float nearest to \<open>round_2dp q\<close>, and \<open>round_2dp q\<close> is a multiple of \<open>1/100\<close>
  nearest to \<open>q\<close>, the one with the even last digit when \<open>q\<close> lies half way between two. The
  rule sends the decimal \<open>3.005\<close> to \<open>3.00\<close>, and the score of a total of \<^verbatim>\<open>3.005\<close> is \<open>3.0\<close>; the
  total \<^verbatim>\<open>0.125\<close>, a float half way between \<open>0.12\<close> and \<open>0.13\<close>, gives \<open>0.12\<close>.
\<close>

theorem score_rounds_half_even:
  assumes "weighted_loop table ratings (PyInt 0) = Inr (PyFloat (Fin q))"
  shows "calculate_weighted_score_in table ratings
           = Inr (PyFloat (Fin (round_to_grid (round_2dp q))))
     \<and> double_of_rat (round_2dp q) = Fin (round_to_grid (round_2dp q))
     \<and> (\<exists>n. round_2dp q = of_int n / 100 \<and> \<bar>q * 100 - of_int n\<bar> \<le> 1 / 2
            \<and> (\<bar>q * 100 - of_int n\<bar> = 1 / 2 \<longrightarrow> even n))
     \<and> round_2dp (3005 / 1000) = 3
     \<and> calculate_weighted_score_in [(''a'', double_of_rat 1)]
          [''a'' \<mapsto> PyFloat (double_of_rat (3005 / 1000))] = Inr (PyFloat (Fin 3))
     \<and> calculate_weighted_score_in [(''a'', double_of_rat 1)]
          [''a'' \<mapsto> PyFloat (double_of_rat (125 / 1000))]
          = Inr (PyFloat (double_of_rat (12 / 100)))"
proof (intro conjI)
  have "total_ok (PyInt 0)" by (simp add: total_ok_def)
  then have "total_ok (PyFloat (Fin q))"
    using assms by (rule weighted_loop_total_ok)
  then have q: "\<bar>q\<bar> \<le> dbl_max"
    by (simp add: total_ok_def bounded_float_def)
  then have "\<bar>round_2dp q\<bar> \<le> dbl_max"
    by (rule round_2dp_bounded)
  then show fin: "double_of_rat (round_2dp q) = Fin (round_to_grid (round_2dp q))"
    by (rule double_of_rat_finite)
  then show "calculate_weighted_score_in table ratings
           = Inr (PyFloat (Fin (round_to_grid (round_2dp q))))"
    by (simp add: calculate_weighted_score_in_def assms)
  show "\<exists>n. round_2dp q = of_int n / 100 \<and> \<bar>q * 100 - of_int n\<bar> \<le> 1 / 2
            \<and> (\<bar>q * 100 - of_int n\<bar> = 1 / 2 \<longrightarrow> even n)"
    using rhe_nearest [of "q * 100"] by (auto simp: round_2dp_def)
  show "round_2dp (3005 / 1000) = 3"
    by code_simp
  show "calculate_weighted_score_in [(''a'', double_of_rat 1)]
          [''a'' \<mapsto> PyFloat (double_of_rat (3005 / 1000))] = Inr (PyFloat (Fin 3))"
    by code_simp
  show "calculate_weighted_score_in [(''a'', double_of_rat 1)]
          [''a'' \<mapsto> PyFloat (double_of_rat (125 / 1000))]
          = Inr (PyFloat (double_of_rat (12 / 100)))"
    by code_simp
qed

theorem score_rounds_half_even_witness:
  "weighted_loop [(''a'', double_of_rat 1)] [''a'' \<mapsto> PyFloat (double_of_rat (3005 / 1000))]
     (PyInt 0) = Inr (PyFloat (Fin (3383329220062085 / 1125899906842624)))
   \<and> calculate_weighted_score_in [(''a'', double_of_rat 1)]
        [''a'' \<mapsto> PyFloat (double_of_rat (3005 / 1000))]
      = Inr (PyFloat (Fin (round_to_grid (round_2dp (3383329220062085 / 1125899906842624)))))
   \<and> round_to_grid (round_2dp (3383329220062085 / 1125899906842624)) = 3"
proof -
  have "round_to_grid (round_2dp (3383329220062085 / 1125899906842624)) = 3"
    by code_simp
  with score_rounds_half_even [OF score_3005] score_3005 show ?thesis
    by blast
qed

section \<open>The ranker, row by row\<close>

lemma df_apply_length: "df_apply f rows = Inr vs \<Longrightarrow> length vs = length rows"
  by (induction rows arbitrary: vs) (auto split: sum.splits)

lemma series_float64_length: "series_float64 vs = Inr xs \<Longrightarrow> length xs = length vs"
  by (induction vs arbitrary: xs) (auto split: sum.splits)

lemma series_float64_PyFloat: "series_float64 (map PyFloat xs) = Inr xs"
  by (induction xs) auto

lemma df_set_column_length:
  "length vals = length rows \<Longrightarrow> length (df_set_column name vals rows) = length rows"
  by (simp add: df_set_column_def)

lemma df_set_column_nth:
  "length vals = length rows \<Longrightarrow> i < length rows \<Longrightarrow>
   df_set_column name vals rows ! i = (rows ! i)(name \<mapsto> vals ! i)"
  by (simp add: df_set_column_def)

lemma df_get_set_column:
  "length vals = length rows \<Longrightarrow> df_get_column name (df_set_column name vals rows) = Inr vals"
proof (induction rows arbitrary: vals)
  case Nil
  then show ?case by (simp add: df_set_column_def)
next
  case (Cons r rows)
  then obtain v vs where "vals = v # vs" "length vs = length rows"
    by (cases vals) auto
  with Cons.IH [of vs] show ?case
    by (simp add: df_set_column_def)
qed

lemma df_get_column_map:
  "\<forall>r \<in> set rows. r name = Some (f r) \<Longrightarrow> df_get_column name rows = Inr (map f rows)"
  by (induction rows) auto

lemma astype_int_map_Some: "astype_int (map Some js) = Inr js"
  by (induction js) auto

lemma astype_int_InrD: "astype_int ks = Inr js \<Longrightarrow> ks = map Some js"
  by (induction ks arbitrary: js rule: astype_int.induct) (auto split: sum.splits)

lemma astype_int_Inr: "astype_int ks = Inr js \<longleftrightarrow> ks = map Some js"
  using astype_int_InrD astype_int_map_Some by blast

lemma length_remdups_filter:
  "length (remdups (filter P xs)) = card {y \<in> set xs. P y}"
  by (simp add: length_remdups_card_conv)

lemma rank_dense_desc_Inr:
  "astype_int (rank_dense_desc xs) = Inr ks \<longleftrightarrow> NaN \<notin> set xs \<and> ks = map (dense_rank xs) xs"
proof -
  have "rank_dense_desc xs = map Some ks \<longleftrightarrow> NaN \<notin> set xs \<and> ks = map (dense_rank xs) xs"
  proof
    assume eq: "rank_dense_desc xs = map Some ks"
    have len: "length ks = length xs"
      using arg_cong [OF eq, of length] by (simp add: rank_dense_desc_def)
    have nth: "(if xs ! i = NaN then None else Some (dense_rank xs (xs ! i))) = Some (ks ! i)"
      if i: "i < length xs" for i
    proof -
      have "rank_dense_desc xs ! i = Some (ks ! i)"
        using i len by (simp add: eq)
      moreover have "rank_dense_desc xs ! i =
          (if xs ! i = NaN then None else Some (dense_rank xs (xs ! i)))"
        using i by (simp add: rank_dense_desc_def dense_rank_def length_remdups_filter)
      ultimately show ?thesis by simp
    qed
    have "NaN \<notin> set xs"
    proof
      assume "NaN \<in> set xs"
      then obtain i where "i < length xs" "xs ! i = NaN"
        by (auto simp: in_set_conv_nth)
      with nth [of i] show False by simp
    qed
    moreover have "ks = map (dense_rank xs) xs"
    proof (rule nth_equalityI)
      show "length ks = length (map (dense_rank xs) xs)" using len by simp
      fix i assume "i < length ks"
      with nth [of i] len show "ks ! i = map (dense_rank xs) xs ! i"
        by (simp split: if_splits)
    qed
    ultimately show "NaN \<notin> set xs \<and> ks = map (dense_rank xs) xs" ..
  next
    assume "NaN \<notin> set xs \<and> ks = map (dense_rank xs) xs"
    then show "rank_dense_desc xs = map Some ks"
      by (auto simp: rank_dense_desc_def dense_rank_def length_remdups_filter)
  qed
  then show ?thesis by (simp add: astype_int_Inr)
qed

lemma int_keys_PyInt: "int_keys (map PyInt ks) = Inr ks"
  by (induction ks) auto

lemma annotate_nth:
  assumes "length scores = length rows" "length ranks = length rows" "i < length rows"
  shows "annotate rows scores ranks ! i
     = (rows ! i)(''business_score'' \<mapsto> PyFloat (scores ! i), ''rank'' \<mapsto> PyInt (ranks ! i))"
  using assms by (simp add: annotate_def df_set_column_nth df_set_column_length)

lemma annotate_length:
  assumes "length scores = length rows" "length ranks = length rows"
  shows "length (annotate rows scores ranks) = length rows"
  using assms by (simp add: annotate_def df_set_column_length)

lemma df_sort_values_rank:
  assumes "length scores = length rows" "length ranks = length rows"
  shows "df_sort_values sorter ''rank'' (annotate rows scores ranks) =
     (if list_all (\<lambda>i. i < length rows) (sorter ranks)
      then Inr (map (\<lambda>i. annotate rows scores ranks ! i) (sorter ranks))
      else Inl IndexError)"
  using assms
  by (simp add: df_sort_values_def annotate_def df_get_set_column df_set_column_length
      int_keys_PyInt)

lemma evaluate_tools_in_rows:
  assumes "a < length h"
  shows "evaluate_tools_in sorter table h a =
     (case evaluate_rows sorter table (h ! a) of
        Inl e \<Rightarrow> Inl e
      | Inr (df, out) \<Rightarrow> Inr (h @ [df, out], Suc (length h)))"
proof (cases "df_apply (calculate_weighted_score_in table) (h ! a)")
  case (Inl e)
  then show ?thesis
    using assms by (simp add: evaluate_tools_in_def evaluate_rows_def df_copy_def nth_append)
next
  case results: (Inr results)
  show ?thesis
  proof (cases "series_float64 results")
    case (Inl e)
    then show ?thesis
      using assms results
      by (simp add: evaluate_tools_in_def evaluate_rows_def df_copy_def nth_append)
  next
    case scores: (Inr scores)
    have len: "length scores = length (h ! a)"
      using df_apply_length [OF results] series_float64_length [OF scores] by simp
    show ?thesis
    proof (cases "astype_int (rank_dense_desc scores)")
      case (Inl e)
      then show ?thesis
        using assms results scores len
        by (simp add: evaluate_tools_in_def evaluate_rows_def df_copy_def nth_append
            df_get_set_column series_float64_PyFloat)
    next
      case ranks: (Inr ranks)
      then have lenr: "length ranks = length (h ! a)"
        using len by (simp add: rank_dense_desc_Inr)
      show ?thesis
        using assms results scores ranks len lenr
          df_sort_values_rank [of scores "h ! a" ranks sorter]
        by (simp add: evaluate_tools_in_def evaluate_rows_def df_copy_def nth_append
            df_get_set_column series_float64_PyFloat annotate_def)
    qed
  qed
qed

lemma evaluate_rows_success:
  assumes "evaluate_rows sorter table rows = Inr (df, out)"
  obtains scores ranks where
    "length scores = length rows" "NaN \<notin> set scores"
    "ranks = map (dense_rank scores) scores"
    "df = annotate rows scores ranks"
    "out = map (\<lambda>i. df ! i) (sorter ranks)"
    "list_all (\<lambda>i. i < length rows) (sorter ranks)"
    "df_apply (calculate_weighted_score_in table) rows = Inr (map PyFloat scores)
       \<or> (\<exists>results. df_apply (calculate_weighted_score_in table) rows = Inr results
             \<and> series_float64 results = Inr scores)"
proof -
  from assms obtain results scores ranks where
    r: "df_apply (calculate_weighted_score_in table) rows = Inr results"
    and s: "series_float64 results = Inr scores"
    and k: "astype_int (rank_dense_desc scores) = Inr ranks"
    and i: "list_all (\<lambda>i. i < length rows) (sorter ranks)"
    and d: "df = annotate rows scores ranks"
    and out: "out = map (\<lambda>i. annotate rows scores ranks ! i) (sorter ranks)"
    by (auto simp: evaluate_rows_def split: sum.splits if_splits)
  have "length scores = length rows"
    using df_apply_length [OF r] series_float64_length [OF s] by simp
  moreover have "NaN \<notin> set scores" "ranks = map (dense_rank scores) scores"
    using k by (simp_all add: rank_dense_desc_Inr)
  ultimately show ?thesis
    using that [of scores ranks] r s i d out by blast
qed

subsection \<open>The library's sort\<close>

lemma is_argsort_stable: "is_argsort stable_argsort"
  by (simp add: is_argsort_def stable_argsort_def sorted_sort_key)

lemma is_argsort_mset: "is_argsort sorter \<Longrightarrow> mset (sorter ks) = mset [0..<length ks]"
  by (simp add: is_argsort_def)

lemma is_argsort_set: "is_argsort sorter \<Longrightarrow> set (sorter ks) = {0..<length ks}"
  using is_argsort_mset [of sorter ks] mset_eq_setD by fastforce

lemma is_argsort_length: "is_argsort sorter \<Longrightarrow> length (sorter ks) = length ks"
  using is_argsort_mset [of sorter ks] mset_eq_length by fastforce

lemma is_argsort_sorted:
  "is_argsort sorter \<Longrightarrow> sorted (map (\<lambda>i. ks ! i) (sorter ks))"
  by (simp add: is_argsort_def)

lemma is_argsort_Nil: "is_argsort sorter \<Longrightarrow> sorter [] = []"
  using is_argsort_length [of sorter "[]"] by simp

lemma evaluate_rows_Nil:
  "is_argsort sorter \<Longrightarrow> evaluate_rows sorter table [] = Inr ([], [])"
  by (simp add: evaluate_rows_def rank_dense_desc_def is_argsort_Nil annotate_def
      df_set_column_def)

lemma evaluate_tools_in_success:
  assumes "is_argsort sorter" "a < length h"
    and "evaluate_tools_in sorter table h a = Inr (h', b)"
  obtains scores ranks where
    "length scores = length (h ! a)" "NaN \<notin> set scores"
    "ranks = map (dense_rank scores) scores"
    "h' = h @ [annotate (h ! a) scores ranks,
               map (\<lambda>i. annotate (h ! a) scores ranks ! i) (sorter ranks)]"
    "b = Suc (length h)"
proof -
  from assms(2,3) obtain df out where
    rows: "evaluate_rows sorter table (h ! a) = Inr (df, out)"
    and h': "h' = h @ [df, out]" and b: "b = Suc (length h)"
    by (auto simp: evaluate_tools_in_rows split: sum.splits)
  from rows obtain scores ranks where
    "length scores = length (h ! a)" "NaN \<notin> set scores"
    "ranks = map (dense_rank scores) scores"
    "df = annotate (h ! a) scores ranks"
    "out = map (\<lambda>i. df ! i) (sorter ranks)"
    by (rule evaluate_rows_success)
  with h' b that show ?thesis by blast
qed

subsection \<open>Dense ranks\<close>

lemma fless_irrefl: "\<not> fless x x"
  by (cases x) auto

lemma fless_trans: "fless x y \<Longrightarrow> fless y z \<Longrightarrow> fless x z"
  by (cases x; cases y; cases z) auto

lemma fless_total: "x \<noteq> NaN \<Longrightarrow> y \<noteq> NaN \<Longrightarrow> x \<noteq> y \<Longrightarrow> fless x y \<or> fless y x"
  by (cases x; cases y) auto

lemma dense_rank_antimono:
  assumes "y \<in> set xs" "fless x y"
  shows "dense_rank xs y < dense_rank xs x"
proof -
  have "{z \<in> set xs. fless y z} \<subset> {z \<in> set xs. fless x z}"
    using assms fless_trans [of x y] fless_irrefl [of y] by blast
  then have "card {z \<in> set xs. fless y z} < card {z \<in> set xs. fless x z}"
    by (intro psubset_card_mono) simp_all
  then show ?thesis
    by (simp add: dense_rank_def)
qed

lemma dense_rank_eq_iff:
  assumes "NaN \<notin> set xs" "x \<in> set xs" "y \<in> set xs"
  shows "dense_rank xs x = dense_rank xs y \<longleftrightarrow> x = y"
proof
  assume eq: "dense_rank xs x = dense_rank xs y"
  show "x = y"
  proof (rule ccontr)
    assume "x \<noteq> y"
    moreover have "x \<noteq> NaN" "y \<noteq> NaN" using assms by auto
    ultimately have "fless x y \<or> fless y x" by (intro fless_total)
    then show False
      using dense_rank_antimono [of y xs x] dense_rank_antimono [of x xs y] assms eq by auto
  qed
qed simp

lemma dense_rank_less_iff:
  assumes "NaN \<notin> set xs" "x \<in> set xs" "y \<in> set xs"
  shows "dense_rank xs y < dense_rank xs x \<longleftrightarrow> fless x y"
proof
  assume lt: "dense_rank xs y < dense_rank xs x"
  then have "x \<noteq> y" by auto
  moreover have "x \<noteq> NaN" "y \<noteq> NaN" using assms by auto
  ultimately have "fless x y \<or> fless y x" by (intro fless_total)
  then show "fless x y"
    using dense_rank_antimono [of x xs y] assms lt by auto
next
  assume "fless x y"
  then show "dense_rank xs y < dense_rank xs x"
    using assms by (intro dense_rank_antimono)
qed

lemma dense_rank_range:
  assumes "x \<in> set xs"
  shows "1 \<le> dense_rank xs x" "dense_rank xs x \<le> int (card (set xs))"
proof -
  show "1 \<le> dense_rank xs x" by (simp add: dense_rank_def)
  have "{z \<in> set xs. fless x z} \<subseteq> set xs - {x}"
    using fless_irrefl by auto
  then have "card {z \<in> set xs. fless x z} \<le> card (set xs - {x})"
    by (intro card_mono) simp_all
  also have "\<dots> < card (set xs)"
    using assms by (intro card_Diff1_less) simp_all
  finally show "dense_rank xs x \<le> int (card (set xs))"
    by (simp add: dense_rank_def)
qed

lemma dense_rank_image:
  assumes "NaN \<notin> set xs"
  shows "dense_rank xs ` set xs = {1..int (card (set xs))}"
proof (rule card_subset_eq)
  show "finite {1..int (card (set xs))}" by simp
  show "dense_rank xs ` set xs \<subseteq> {1..int (card (set xs))}"
    using dense_rank_range by auto
  have "inj_on (dense_rank xs) (set xs)"
    using dense_rank_eq_iff [OF assms] by (auto intro: inj_onI)
  then show "card (dense_rank xs ` set xs) = card {1..int (card (set xs))}"
    by (simp add: card_image)
qed

lemma dense_rank_cong: "set xs = set ys \<Longrightarrow> dense_rank xs = dense_rank ys"
  by (simp add: dense_rank_def fun_eq_iff)

lemma is_dense_ranking_dense_rank:
  assumes "NaN \<notin> set ss"
  shows "is_dense_ranking ss (map (dense_rank ss) ss)"
  unfolding is_dense_ranking_def
proof (intro conjI allI impI)
  show "length (map (dense_rank ss) ss) = length ss" by simp
  show "set (map (dense_rank ss) ss) = {1..int (card (set ss))}"
    using dense_rank_image [OF assms] by simp
next
  fix i j assume "i < length ss" "j < length ss"
  then show "(map (dense_rank ss) ss ! i = map (dense_rank ss) ss ! j) = (ss ! i = ss ! j)"
    using dense_rank_eq_iff [OF assms, of "ss ! i" "ss ! j"] by simp
next
  fix i j assume "i < length ss" "j < length ss"
  then show "(map (dense_rank ss) ss ! i < map (dense_rank ss) ss ! j) = fless (ss ! j) (ss ! i)"
    using dense_rank_less_iff [OF assms, of "ss ! j" "ss ! i"] by simp
qed

subsection \<open>The example frames\<close>

lemma score_tool_A:
  "calculate_weighted_score_in CRITERIA_WEIGHTS tool_A
     = Inr (PyFloat (Fin (3602879701896397 / 4503599627370496)))"
  by code_simp

lemma score_tool_B: "calculate_weighted_score_in CRITERIA_WEIGHTS tool_B = Inr (PyFloat (Fin 1))"
  by code_simp

lemma score_tool_C: "calculate_weighted_score_in CRITERIA_WEIGHTS tool_C = Inr (PyFloat (Fin 1))"
  by code_simp

lemma stable_argsort_example: "stable_argsort [2, 1, 1] = [1, 2, 0]"
  by code_simp

lemma example_ranks:
  "astype_int (rank_dense_desc [Fin (3602879701896397 / 4503599627370496), Fin 1, Fin 1])
     = Inr [2, 1, 1]"
  by (simp add: rank_dense_desc_def)

lemma evaluate_example_stable:
  "evaluate_tools_in stable_argsort CRITERIA_WEIGHTS [[tool_A, tool_B, tool_C]] 0 =
     Inr ([[tool_A, tool_B, tool_C], [scored_A, scored_B, scored_C],
           [scored_B, scored_C, scored_A]], 2)"
  by (simp add: evaluate_tools_in_rows evaluate_rows_def
      score_tool_A score_tool_B score_tool_C example_ranks stable_argsort_example
      annotate_def df_set_column_def scored_A_def scored_B_def scored_C_def)

lemma simd_argsort_three: "simd_argsort [2, 1, 1] = [1, 2, 0]"
  by code_simp

lemma simd_argsort_four: "simd_argsort [2, 3, 1, 1] = [3, 2, 0, 1]"
  by code_simp

lemma evaluate_example_simd:
  "evaluate_tools_in simd_argsort CRITERIA_WEIGHTS [[tool_A, tool_B, tool_C]] 0 =
     Inr ([[tool_A, tool_B, tool_C], [scored_A, scored_B, scored_C],
           [scored_B, scored_C, scored_A]], 2)"
  by (simp add: evaluate_tools_in_rows evaluate_rows_def
      score_tool_A score_tool_B score_tool_C example_ranks simd_argsort_three
      annotate_def df_set_column_def scored_A_def scored_B_def scored_C_def)

lemma score_tool_W:
  "calculate_weighted_score_in CRITERIA_WEIGHTS tool_W = Inr (PyFloat (Fin (5404319552844595 / 9007199254740992)))"
  by code_simp

lemma score_tool_X:
  "calculate_weighted_score_in CRITERIA_WEIGHTS tool_X = Inr (PyFloat (Fin (3602879701896397 / 18014398509481984)))"
  by code_simp

lemma score_tool_Y: "calculate_weighted_score_in CRITERIA_WEIGHTS tool_Y = Inr (PyFloat (Fin 1))"
  by code_simp

lemma score_tool_Z: "calculate_weighted_score_in CRITERIA_WEIGHTS tool_Z = Inr (PyFloat (Fin 1))"
  by code_simp

lemma four_ranks:
  "astype_int (rank_dense_desc [Fin (5404319552844595 / 9007199254740992), Fin (3602879701896397 / 18014398509481984), Fin 1, Fin 1])
     = Inr [2, 3, 1, 1]"
  by (simp add: rank_dense_desc_def)

lemma evaluate_four_simd:
  "evaluate_tools_in simd_argsort CRITERIA_WEIGHTS [[tool_W, tool_X, tool_Y, tool_Z]] 0 =
     Inr ([[tool_W, tool_X, tool_Y, tool_Z], [scored_W, scored_X, scored_Y, scored_Z],
           [scored_Z, scored_Y, scored_W, scored_X]], 2)"
  by (simp add: evaluate_tools_in_rows evaluate_rows_def
      score_tool_W score_tool_X score_tool_Y score_tool_Z four_ranks simd_argsort_four
      annotate_def df_set_column_def scored_W_def scored_X_def scored_Y_def scored_Z_def)

lemma five_tools_scores:
  "df_apply (calculate_weighted_score_in [(''a'', double_of_rat 1)]) five_tools
     = Inr [PyFloat (Fin 5), PyFloat (Fin 5), PyFloat (Fin 3), PyFloat (Fin 3), PyFloat (Fin 1)]"
  by code_simp

lemma five_argsort: "stable_argsort [1, 1, 2, 2, 3] = [0, 1, 2, 3, 4]"
  by code_simp

lemma evaluate_five_tools:
  "evaluate_tools_in stable_argsort [(''a'', double_of_rat 1)] [five_tools] 0
     = Inr ([five_tools, five_tools_ranked, five_tools_ranked], 2)"
  by (simp add: evaluate_tools_in_rows evaluate_rows_def five_tools_scores rank_dense_desc_def
      five_argsort annotate_def df_set_column_def)
    (simp add: five_tools_def five_tools_ranked_def)

section \<open>Empty input\<close>

text \<open>
  C6. \<open>evaluate_tools\<close> applied to a frame without rows raises nothing and returns a new
  frame without rows.
\<close>

theorem evaluate_empty_input:
  assumes "is_argsort sorter" "a < length h" "h ! a = []"
  shows "evaluate_tools_in sorter table h a = Inr (h @ [[], []], Suc (length h))
         \<and> (h @ [[], []]) ! Suc (length h) = []"
  using assms by (simp add: evaluate_tools_in_rows evaluate_rows_Nil nth_append)

theorem evaluate_empty_input_witness:
  "is_argsort stable_argsort \<and> (0::nat) < length [[]::dataframe] \<and> [[]::dataframe] ! 0 = []
   \<and> evaluate_tools_in stable_argsort CRITERIA_WEIGHTS [[]] 0 = Inr ([[], [], []], Suc (Suc 0))"
  using evaluate_empty_input [of stable_argsort 0 "[[]]" CRITERIA_WEIGHTS] is_argsort_stable
  by simp

section \<open>The input is copied, the output extends it\<close>

text \<open>
  C7. When \<open>evaluate_tools\<close> returns, every object that existed before the call, the input
  frame among them, is unchanged (the function works on a copy), and the frame it returns is
  a new object. Its records are the input records, each once: an output record is its input
  record with the fields \<open>business_score\<close> and \<open>rank\<close> set, so every other field, \<open>tool_name\<close>
  among them, is carried unchanged, and its fields are those of the input record and these
  two.
\<close>

theorem evaluate_copies_and_extends:
  assumes "is_argsort sorter" "a < length h"
    and "evaluate_tools_in sorter table h a = Inr (h', b)"
  shows "take (length h) h' = h \<and> h' ! a = h ! a \<and> length h \<le> b \<and> b < length h'
     \<and> (\<exists>idx. mset idx = mset [0..<length (h ! a)]
            \<and> list_all2 (\<lambda>i r'. adds_score_and_rank (h ! a ! i) r') idx (h' ! b))
     \<and> (\<forall>r' \<in> set (h' ! b). \<exists>r \<in> set (h ! a).
            r' ''tool_name'' = r ''tool_name''
            \<and> (\<forall>c. c \<noteq> ''business_score'' \<longrightarrow> c \<noteq> ''rank'' \<longrightarrow> r' c = r c)
            \<and> dom r' = dom r \<union> {''business_score'', ''rank''})"
proof -
  let ?rows = "h ! a"
  from assms(2,3) obtain df out where
    rows: "evaluate_rows sorter table ?rows = Inr (df, out)"
    and h': "h' = h @ [df, out]" and b: "b = Suc (length h)"
    by (auto simp: evaluate_tools_in_rows split: sum.splits)
  from rows obtain scores ranks where
    len: "length scores = length ?rows" and ranks: "ranks = map (dense_rank scores) scores"
    and df: "df = annotate ?rows scores ranks"
    and out: "out = map (\<lambda>i. df ! i) (sorter ranks)"
    by (rule evaluate_rows_success)
  have lenr: "length ranks = length ?rows"
    using len ranks by simp
  have idx: "mset (sorter ranks) = mset [0..<length ?rows]"
    using is_argsort_mset [OF assms(1), of ranks] lenr by simp
  have in_range: "i < length ?rows" if "i \<in> set (sorter ranks)" for i
    using that is_argsort_set [OF assms(1), of ranks] lenr by simp
  have hb: "h' ! b = out"
    by (simp add: h' b nth_append)
  have ann: "adds_score_and_rank (?rows ! i) (df ! i)" if "i < length ?rows" for i
    using that len lenr by (auto simp: df annotate_nth adds_score_and_rank_def)
  have "list_all2 (\<lambda>i r'. adds_score_and_rank (?rows ! i) r') (sorter ranks) out"
    using in_range ann by (simp add: out list_all2_conv_all_nth)
  with idx have perm: "\<exists>idx. mset idx = mset [0..<length ?rows]
      \<and> list_all2 (\<lambda>i r'. adds_score_and_rank (?rows ! i) r') idx (h' ! b)"
    unfolding hb by blast
  have fields: "\<forall>r' \<in> set (h' ! b). \<exists>r \<in> set ?rows.
            r' ''tool_name'' = r ''tool_name''
            \<and> (\<forall>c. c \<noteq> ''business_score'' \<longrightarrow> c \<noteq> ''rank'' \<longrightarrow> r' c = r c)
            \<and> dom r' = dom r \<union> {''business_score'', ''rank''}"
  proof
    fix r' assume "r' \<in> set (h' ! b)"
    then obtain i where i: "i \<in> set (sorter ranks)" and r': "r' = df ! i"
      by (auto simp: hb out)
    from in_range [OF i] have lt: "i < length ?rows" .
    from ann [OF lt] obtain s k where
      "r' = (?rows ! i)(''business_score'' \<mapsto> PyFloat s, ''rank'' \<mapsto> PyInt k)"
      by (auto simp: r' adds_score_and_rank_def)
    then have "r' ''tool_name'' = (?rows ! i) ''tool_name''
        \<and> (\<forall>c. c \<noteq> ''business_score'' \<longrightarrow> c \<noteq> ''rank'' \<longrightarrow> r' c = (?rows ! i) c)
        \<and> dom r' = dom (?rows ! i) \<union> {''business_score'', ''rank''}"
      by auto
    moreover have "?rows ! i \<in> set ?rows"
      using lt by simp
    ultimately show "\<exists>r \<in> set ?rows.
            r' ''tool_name'' = r ''tool_name''
            \<and> (\<forall>c. c \<noteq> ''business_score'' \<longrightarrow> c \<noteq> ''rank'' \<longrightarrow> r' c = r c)
            \<and> dom r' = dom r \<union> {''business_score'', ''rank''}"
      by blast
  qed
  have "take (length h) h' = h" "h' ! a = h ! a" "length h \<le> b" "b < length h'"
    using assms(2) by (simp_all add: h' b nth_append)
  with perm fields show ?thesis by blast
qed

theorem evaluate_copies_and_extends_witness:
  "is_argsort stable_argsort \<and> (0::nat) < length [[tool_A, tool_B, tool_C]]
   \<and> evaluate_tools_in stable_argsort CRITERIA_WEIGHTS [[tool_A, tool_B, tool_C]] 0 =
     Inr ([[tool_A, tool_B, tool_C], [scored_A, scored_B, scored_C],
           [scored_B, scored_C, scored_A]], 2)
   \<and> take (length [[tool_A, tool_B, tool_C]])
        [[tool_A, tool_B, tool_C], [scored_A, scored_B, scored_C], [scored_B, scored_C, scored_A]]
       = [[tool_A, tool_B, tool_C]]
   \<and> (\<exists>idx. mset idx = mset [0..<length [tool_A, tool_B, tool_C]]
          \<and> list_all2 (\<lambda>i r'. adds_score_and_rank ([tool_A, tool_B, tool_C] ! i) r') idx
               [scored_B, scored_C, scored_A])"
proof -
  have h: "(0::nat) < length [[tool_A, tool_B, tool_C]]" by simp
  from evaluate_copies_and_extends [OF is_argsort_stable h evaluate_example_stable]
    is_argsort_stable h evaluate_example_stable
  show ?thesis by simp
qed

section \<open>Dense ranking\<close>

text \<open>
  C2. When \<open>evaluate_tools\<close> returns, the \<open>rank\<close> column of the returned frame is the dense
  ranking of its \<open>business_score\<close> column in descending order: records sharing a score share
  a rank, a higher score has a smaller rank, and the ranks are exactly \<open>1, \<dots>, n\<close> for the \<open>n\<close>
  distinct scores. The scores \<open>[5.0, 5.0, 3.0, 3.0, 1.0]\<close> get the ranks \<open>[1, 1, 2, 2, 3]\<close>.
\<close>

theorem ranks_are_dense:
  assumes "is_argsort sorter" "a < length h"
    and "evaluate_tools_in sorter table h a = Inr (h', b)"
  shows "(\<exists>ss ks. df_get_column ''business_score'' (h' ! b) = Inr (map PyFloat ss)
             \<and> df_get_column ''rank'' (h' ! b) = Inr (map PyInt ks)
             \<and> is_dense_ranking ss ks)
     \<and> astype_int (rank_dense_desc [Fin 5, Fin 5, Fin 3, Fin 3, Fin 1]) = Inr [1, 1, 2, 2, 3]"
proof
  let ?rows = "h ! a"
  from assms obtain scores ranks where
    len: "length scores = length ?rows" and nan: "NaN \<notin> set scores"
    and ranks: "ranks = map (dense_rank scores) scores"
    and h': "h' = h @ [annotate ?rows scores ranks,
               map (\<lambda>i. annotate ?rows scores ranks ! i) (sorter ranks)]"
    and b: "b = Suc (length h)"
    by (rule evaluate_tools_in_success)
  let ?idx = "sorter ranks"
  let ?ss = "map (\<lambda>i. scores ! i) ?idx"
  have lenr: "length ranks = length ?rows"
    using len ranks by simp
  have idx_set: "set ?idx = {0..<length scores}"
    using is_argsort_set [OF assms(1), of ranks] ranks by simp
  have out: "h' ! b = map (\<lambda>i. annotate ?rows scores ranks ! i) ?idx"
    by (simp add: h' b nth_append)
  have row: "annotate ?rows scores ranks ! i
      = (?rows ! i)(''business_score'' \<mapsto> PyFloat (scores ! i),
                   ''rank'' \<mapsto> PyInt (dense_rank scores (scores ! i)))"
    if "i \<in> set ?idx" for i
    using that idx_set len lenr by (simp add: annotate_nth ranks)
  have "set ?ss = (\<lambda>i. scores ! i) ` set [0..<length scores]"
    by (simp add: idx_set)
  also have "\<dots> = set (map (\<lambda>i. scores ! i) [0..<length scores])"
    by (simp only: set_map)
  also have "\<dots> = set scores"
    by (simp only: map_nth)
  finally have set_ss: "set ?ss = set scores" .
  have c1: "df_get_column ''business_score'' (h' ! b) = Inr (map PyFloat ?ss)"
  proof -
    have "df_get_column ''business_score'' (h' ! b)
        = Inr (map (\<lambda>r. the (r ''business_score'')) (h' ! b))"
      by (rule df_get_column_map) (auto simp: out row)
    also have "map (\<lambda>r. the (r ''business_score'')) (h' ! b) = map PyFloat ?ss"
      by (simp add: out row)
    finally show ?thesis .
  qed
  have c2: "df_get_column ''rank'' (h' ! b) = Inr (map PyInt (map (dense_rank ?ss) ?ss))"
  proof -
    have "df_get_column ''rank'' (h' ! b) = Inr (map (\<lambda>r. the (r ''rank'')) (h' ! b))"
      by (rule df_get_column_map) (auto simp: out row)
    also have "map (\<lambda>r. the (r ''rank'')) (h' ! b) = map PyInt (map (dense_rank scores) ?ss)"
      by (simp add: out row)
    also have "dense_rank scores = dense_rank ?ss"
      using set_ss by (intro dense_rank_cong) simp
    finally show ?thesis .
  qed
  have "is_dense_ranking ?ss (map (dense_rank ?ss) ?ss)"
    using nan set_ss by (intro is_dense_ranking_dense_rank) simp
  with c1 c2 show "\<exists>ss ks. df_get_column ''business_score'' (h' ! b) = Inr (map PyFloat ss)
             \<and> df_get_column ''rank'' (h' ! b) = Inr (map PyInt ks)
             \<and> is_dense_ranking ss ks"
    by blast
  show "astype_int (rank_dense_desc [Fin 5, Fin 5, Fin 3, Fin 3, Fin 1]) = Inr [1, 1, 2, 2, 3]"
    by (simp add: rank_dense_desc_def)
qed

theorem ranks_are_dense_witness:
  "is_argsort stable_argsort \<and> (0::nat) < length [five_tools]
   \<and> evaluate_tools_in stable_argsort [(''a'', double_of_rat 1)] [five_tools] 0
       = Inr ([five_tools, five_tools_ranked, five_tools_ranked], 2)
   \<and> df_get_column ''business_score'' five_tools_ranked
       = Inr (map PyFloat [Fin 5, Fin 5, Fin 3, Fin 3, Fin 1])
   \<and> df_get_column ''rank'' five_tools_ranked = Inr (map PyInt [1, 1, 2, 2, 3])
   \<and> (\<exists>ss ks. df_get_column ''business_score''
                 ([five_tools, five_tools_ranked, five_tools_ranked] ! 2) = Inr (map PyFloat ss)
             \<and> df_get_column ''rank''
                 ([five_tools, five_tools_ranked, five_tools_ranked] ! 2) = Inr (map PyInt ks)
             \<and> is_dense_ranking ss ks)"
proof -
  have h: "(0::nat) < length [five_tools]" by simp
  have "df_get_column ''business_score'' five_tools_ranked
       = Inr (map PyFloat [Fin 5, Fin 5, Fin 3, Fin 3, Fin 1])"
    "df_get_column ''rank'' five_tools_ranked = Inr (map PyInt [1, 1, 2, 2, 3])"
    by (simp_all add: five_tools_ranked_def)
  with ranks_are_dense [OF is_argsort_stable h evaluate_five_tools]
    is_argsort_stable h evaluate_five_tools
  show ?thesis by blast
qed

section \<open>The order of the output\<close>

text \<open>
  C3, as stated, asks that records of equal rank keep their input order for every input.
  Four tools rated 3, 1, 5, 5 on \<open>ease_of_use\<close> get the ranks 2, 3, 1, 1, and the sort puts
  the two tools of rank 1 in the reverse of their input order: \<open>Z\<close> comes out before \<open>Y\<close>. (On
  the three tools rated 4, 5, 5 the same sort keeps the tied tools in their order.)
\<close>

theorem stable_order_counterexample:
  "evaluate_tools_in simd_argsort CRITERIA_WEIGHTS [[tool_W, tool_X, tool_Y, tool_Z]] 0 =
     Inr ([[tool_W, tool_X, tool_Y, tool_Z], [scored_W, scored_X, scored_Y, scored_Z],
           [scored_Z, scored_Y, scored_W, scored_X]], 2)
   \<and> evaluate_tools_in simd_argsort CRITERIA_WEIGHTS [[tool_A, tool_B, tool_C]] 0 =
     Inr ([[tool_A, tool_B, tool_C], [scored_A, scored_B, scored_C],
           [scored_B, scored_C, scored_A]], 2)"
  using evaluate_four_simd evaluate_example_simd by simp

text \<open>
  C3, amended. When \<open>evaluate_tools\<close> returns, the returned frame holds the scored records,
  each once, in ascending order of rank; the scored records are the input records, in input
  order, with the two columns set. The order of records of equal rank is the one the
  library's sort gives them, which is not always their input order.
\<close>

theorem ranked_output_order:
  assumes "is_argsort sorter" "a < length h"
    and "evaluate_tools_in sorter table h a = Inr (h', b)"
  shows "(\<exists>ks. df_get_column ''rank'' (h' ! b) = Inr (map PyInt ks) \<and> sorted ks)
     \<and> mset (h' ! b) = mset (h' ! length h)
     \<and> list_all2 adds_score_and_rank (h ! a) (h' ! length h)"
proof -
  let ?rows = "h ! a"
  from assms obtain scores ranks where
    len: "length scores = length ?rows"
    and ranks: "ranks = map (dense_rank scores) scores"
    and h': "h' = h @ [annotate ?rows scores ranks,
               map (\<lambda>i. annotate ?rows scores ranks ! i) (sorter ranks)]"
    and b: "b = Suc (length h)"
    by (rule evaluate_tools_in_success)
  let ?df = "annotate ?rows scores ranks"
  let ?idx = "sorter ranks"
  have lenr: "length ranks = length ?rows"
    using len ranks by simp
  have lend: "length ?df = length ?rows"
    using len lenr by (rule annotate_length)
  have df: "h' ! length h = ?df" and out: "h' ! b = map (\<lambda>i. ?df ! i) ?idx"
    by (simp_all add: h' b nth_append)
  have idx_set: "set ?idx = {0..<length ?rows}"
    using is_argsort_set [OF assms(1), of ranks] lenr by simp
  have row: "?df ! i = (?rows ! i)(''business_score'' \<mapsto> PyFloat (scores ! i),
                                  ''rank'' \<mapsto> PyInt (ranks ! i))"
    if "i < length ?rows" for i
    using that len lenr by (simp add: annotate_nth)
  have "df_get_column ''rank'' (h' ! b) = Inr (map (\<lambda>r. the (r ''rank'')) (h' ! b))"
    by (rule df_get_column_map) (auto simp: out row idx_set)
  also have "map (\<lambda>r. the (r ''rank'')) (h' ! b) = map PyInt (map (\<lambda>i. ranks ! i) ?idx)"
    by (simp add: out row idx_set)
  finally have "df_get_column ''rank'' (h' ! b) = Inr (map PyInt (map (\<lambda>i. ranks ! i) ?idx))" .
  moreover have "sorted (map (\<lambda>i. ranks ! i) ?idx)"
    using assms(1) by (rule is_argsort_sorted)
  ultimately have c1: "\<exists>ks. df_get_column ''rank'' (h' ! b) = Inr (map PyInt ks) \<and> sorted ks"
    by blast
  have "mset (h' ! b) = image_mset (\<lambda>i. ?df ! i) (mset ?idx)"
    by (simp add: out)
  also have "mset ?idx = mset [0..<length ?df]"
    using is_argsort_mset [OF assms(1), of ranks] lenr lend by simp
  also have "image_mset (\<lambda>i. ?df ! i) (mset [0..<length ?df]) = mset (map (\<lambda>i. ?df ! i) [0..<length ?df])"
    by simp
  also have "\<dots> = mset ?df"
    by (simp only: map_nth)
  finally have c2: "mset (h' ! b) = mset (h' ! length h)"
    by (simp add: df)
  have c3: "list_all2 adds_score_and_rank ?rows (h' ! length h)"
    unfolding df
    by (rule list_all2_all_nthI) (auto simp: lend row adds_score_and_rank_def)
  from c1 c2 c3 show ?thesis by blast
qed

theorem ranked_output_order_witness:
  "is_argsort stable_argsort \<and> (0::nat) < length [[tool_A, tool_B, tool_C]]
   \<and> evaluate_tools_in stable_argsort CRITERIA_WEIGHTS [[tool_A, tool_B, tool_C]] 0 =
     Inr ([[tool_A, tool_B, tool_C], [scored_A, scored_B, scored_C],
           [scored_B, scored_C, scored_A]], 2)
   \<and> (\<exists>ks. df_get_column ''rank'' [scored_B, scored_C, scored_A] = Inr (map PyInt ks)
          \<and> sorted ks)
   \<and> mset [scored_B, scored_C, scored_A] = mset [scored_A, scored_B, scored_C]"
proof -
  have h: "(0::nat) < length [[tool_A, tool_B, tool_C]]" by simp
  from ranked_output_order [OF is_argsort_stable h evaluate_example_stable]
    is_argsort_stable h evaluate_example_stable
  show ?thesis by simp
qed

section \<open>Determinism\<close>

text \<open>
  C9. When a call of \<open>evaluate_tools\<close> returns, a second call on the same input, in the heap
  the first call left, returns a frame with the same content: the same records with the
  same scores and ranks in the same order; the first result is still there, unchanged. More
  generally the returned frame depends on the content of the input frame and on the weight
  table only: in any heap, at any address holding a frame of the same content, the call
  returns the same frame.
\<close>

theorem evaluate_twice_same_output:
  assumes "a < length h" and "evaluate_tools_in sorter table h a = Inr (h1, b)"
  shows "(\<exists>h2 c. evaluate_tools_in sorter table h1 a = Inr (h2, c)
            \<and> h2 ! c = h1 ! b \<and> h2 ! b = h1 ! b \<and> h2 ! a = h ! a)
     \<and> (\<forall>g a'. a' < length g \<longrightarrow> g ! a' = h ! a \<longrightarrow>
            (\<exists>g1 c. evaluate_tools_in sorter table g a' = Inr (g1, c) \<and> g1 ! c = h1 ! b))"
proof -
  from assms obtain df out where
    rows: "evaluate_rows sorter table (h ! a) = Inr (df, out)"
    and h1: "h1 = h @ [df, out]" and b: "b = Suc (length h)"
    by (auto simp: evaluate_tools_in_rows split: sum.splits)
  have a1: "a < length h1" and same: "h1 ! a = h ! a"
    using assms(1) by (simp_all add: h1 nth_append)
  have "evaluate_tools_in sorter table h1 a = Inr (h1 @ [df, out], Suc (length h1))"
    using a1 rows by (simp add: evaluate_tools_in_rows same)
  moreover have "(h1 @ [df, out]) ! Suc (length h1) = h1 ! b"
    "(h1 @ [df, out]) ! b = h1 ! b" "(h1 @ [df, out]) ! a = h ! a"
    using assms(1) by (simp_all add: h1 b nth_append)
  ultimately have first: "\<exists>h2 c. evaluate_tools_in sorter table h1 a = Inr (h2, c)
            \<and> h2 ! c = h1 ! b \<and> h2 ! b = h1 ! b \<and> h2 ! a = h ! a"
    by blast
  have second: "\<exists>g1 c. evaluate_tools_in sorter table g a' = Inr (g1, c) \<and> g1 ! c = h1 ! b"
    if "a' < length g" "g ! a' = h ! a" for g a'
  proof -
    have "evaluate_tools_in sorter table g a' = Inr (g @ [df, out], Suc (length g))"
      using that rows by (simp add: evaluate_tools_in_rows)
    moreover have "(g @ [df, out]) ! Suc (length g) = h1 ! b"
      by (simp add: h1 b nth_append)
    ultimately show ?thesis by blast
  qed
  from first second show ?thesis by blast
qed

theorem evaluate_twice_same_output_witness:
  "(0::nat) < length [[tool_A, tool_B, tool_C]]
   \<and> evaluate_tools_in stable_argsort CRITERIA_WEIGHTS [[tool_A, tool_B, tool_C]] 0 =
     Inr ([[tool_A, tool_B, tool_C], [scored_A, scored_B, scored_C],
           [scored_B, scored_C, scored_A]], 2)
   \<and> (\<exists>h2 c. evaluate_tools_in stable_argsort CRITERIA_WEIGHTS
          [[tool_A, tool_B, tool_C], [scored_A, scored_B, scored_C],
           [scored_B, scored_C, scored_A]] 0 = Inr (h2, c)
        \<and> h2 ! c = [scored_B, scored_C, scored_A])"
proof -
  have h: "(0::nat) < length [[tool_A, tool_B, tool_C]]" by simp
  from evaluate_twice_same_output [OF h evaluate_example_stable] h evaluate_example_stable
  show ?thesis by simp
qed

section \<open>The score is monotone in each rating\<close>

lemma weights_ok: "list_all (\<lambda>(c, w). unit_weight w) CRITERIA_WEIGHTS"
  by code_simp

lemma fle_NaN: "fle x y \<Longrightarrow> x \<noteq> NaN \<and> y \<noteq> NaN"
  by (cases x; cases y) auto

lemma fle_NInf: "y \<noteq> NaN \<Longrightarrow> fle NInf y"
  by (cases y) auto

lemma fle_PInf: "x \<noteq> NaN \<Longrightarrow> fle x PInf"
  by (cases x) auto

lemma fadd_Fin_not_NaN: "x \<noteq> NaN \<Longrightarrow> fadd x (Fin a) \<noteq> NaN"
  by (cases x) (simp_all add: double_of_rat_not_NaN)

lemma fadd_mono:
  assumes "fle x y" "a \<le> b"
  shows "fle (fadd x (Fin a)) (fadd y (Fin b))"
proof -
  from assms(1) have nn: "x \<noteq> NaN" "y \<noteq> NaN"
    using fle_NaN by blast+
  show ?thesis
  proof (cases x)
    case (Fin p)
    show ?thesis
    proof (cases y)
      case (Fin q)
      with \<open>x = Fin p\<close> assms show ?thesis
        by (simp add: double_of_rat_mono)
    next
      case PInf
      then show ?thesis
        using fadd_Fin_not_NaN [OF nn(1), of a] by (simp add: fle_PInf)
    qed (use assms \<open>x = Fin p\<close> in auto)
  next
    case PInf
    with assms(1) have "y = PInf" by (cases y) auto
    with PInf show ?thesis by simp
  next
    case NInf
    then show ?thesis
      using fadd_Fin_not_NaN [OF nn(2), of b] by (simp add: fle_NInf)
  qed (use nn in simp)
qed

lemma finite_rating_mul:
  assumes "finite_rating v" "0 \<le> q" "q \<le> 1"
  shows "py_mul v (Fin q) = Inr (Fin (round_to_grid (round_to_grid (rating_value v) * q)))"
proof -
  have prod: "double_of_rat (x * q) = Fin (round_to_grid (x * q))" if "\<bar>x\<bar> \<le> dbl_max" for x
  proof -
    have "\<bar>x * q\<bar> \<le> \<bar>x\<bar> * 1"
      unfolding abs_mult using assms(2,3) by (intro mult_left_mono) simp_all
    with that have "\<bar>x * q\<bar> \<le> dbl_max" by simp
    then show ?thesis by (rule double_of_rat_finite)
  qed
  show ?thesis
  proof (cases v)
    case (PyInt n)
    with assms(1) obtain x where x: "float_of_int n = Inr (Fin x)" "\<bar>x\<bar> \<le> dbl_max"
      "x = round_to_grid (of_int n)"
      by (cases n rule: float_of_int_cases) (auto simp: finite_rating_def)
    then show ?thesis
      by (simp add: PyInt rating_value_def prod)
  next
    case (PyFloat x)
    with assms(1) obtain a where a: "x = Fin a" "double_of_rat a = Fin a"
      by (cases x) (auto simp: finite_rating_def)
    from a(2) have "round_to_grid a = a" "\<bar>a\<bar> \<le> dbl_max"
      by (auto simp: double_of_rat_alt split: if_splits)
    then show ?thesis
      by (simp add: PyFloat a(1) rating_value_def prod)
  qed (use assms(1) in \<open>auto simp: finite_rating_def\<close>)
qed

lemma product_mono:
  assumes "rating_value v1 \<le> rating_value v2" "0 \<le> q"
  shows "round_to_grid (round_to_grid (rating_value v1) * q)
       \<le> round_to_grid (round_to_grid (rating_value v2) * q)"
  using assms by (intro round_to_grid_mono mult_right_mono)

lemma py_add_total_le:
  assumes "total_le t1 t2" "a \<le> b"
  shows "\<exists>u1 u2. py_add t1 (Fin a) = Inr u1 \<and> py_add t2 (Fin b) = Inr u2 \<and> total_le u1 u2"
proof (cases t1)
  case (PyInt m)
  with assms(1) have t: "t1 = PyInt 0" "t2 = PyInt 0"
    by (cases t2; simp add: total_le_def)+
  have "fle (fadd (Fin 0) (Fin a)) (fadd (Fin 0) (Fin b))"
    using assms(2) by (intro fadd_mono) simp_all
  then show ?thesis
    by (simp add: t float_of_int_0 total_le_def double_of_rat_bounded)
next
  case (PyFloat x)
  with assms(1) obtain y where y: "t2 = PyFloat y" "fle x y"
    by (cases t2) (auto simp: total_le_def)
  have "fle (fadd x (Fin a)) (fadd y (Fin b))"
    using y(2) assms(2) by (rule fadd_mono)
  then show ?thesis
    by (simp add: PyFloat y(1) total_le_def fadd_bounded)
qed (use assms(1) in \<open>auto simp: total_le_def\<close>)

lemma weighted_loop_mono:
  assumes "list_all (\<lambda>(c, w). unit_weight w) table" "ratings_le table r1 r2" "total_le t1 t2"
  shows "\<exists>u1 u2. weighted_loop table r1 t1 = Inr u1 \<and> weighted_loop table r2 t2 = Inr u2
            \<and> total_le u1 u2"
  using assms
proof (induction table arbitrary: t1 t2)
  case Nil
  then show ?case by simp
next
  case (Cons cw table)
  obtain c w where cw: "cw = (c, w)" by (cases cw)
  from Cons.prems(1) obtain q where w: "w = Fin q" "0 \<le> q" "q \<le> 1"
    and wt: "list_all (\<lambda>(c, w). unit_weight w) table"
    by (cases w) (auto simp: cw unit_weight_def)
  from Cons.prems(2) have rt: "ratings_le table r1 r2"
    by (simp add: ratings_le_def cw)
  show ?case
  proof (cases "r1 c")
    case None
    with Cons.prems(2) have "r2 c = None"
      by (auto simp: ratings_le_def cw split: option.splits)
    with None Cons.IH [OF wt rt Cons.prems(3)] show ?thesis
      by (simp add: cw)
  next
    case (Some v1)
    with Cons.prems(2) obtain v2 where v2: "r2 c = Some v2"
      and fin: "finite_rating v1" "finite_rating v2"
      and le: "rating_value v1 \<le> rating_value v2"
      by (auto simp: ratings_le_def cw split: option.splits)
    let ?p1 = "round_to_grid (round_to_grid (rating_value v1) * q)"
    let ?p2 = "round_to_grid (round_to_grid (rating_value v2) * q)"
    have m1: "py_mul v1 w = Inr (Fin ?p1)" and m2: "py_mul v2 w = Inr (Fin ?p2)"
      using fin w by (simp_all add: finite_rating_mul)
    have "?p1 \<le> ?p2"
      using le w(2) by (rule product_mono)
    with Cons.prems(3) obtain u1 u2 where
      u: "py_add t1 (Fin ?p1) = Inr u1" "py_add t2 (Fin ?p2) = Inr u2" "total_le u1 u2"
      using py_add_total_le by blast
    from Cons.IH [OF wt rt u(3)] show ?thesis
      by (simp add: cw Some v2 m1 m2 u(1,2))
  qed
qed

lemma py_round2_mono:
  assumes "total_le u1 u2"
  shows "\<exists>s1 s2. py_round2 u1 = Inr s1 \<and> py_round2 u2 = Inr s2
            \<and> fle (score_value s1) (score_value s2)"
proof (cases u1)
  case (PyInt m)
  with assms have "u1 = PyInt 0" "u2 = PyInt 0"
    by (cases u2; simp add: total_le_def)+
  then show ?thesis
    by (simp add: score_value_def)
next
  case (PyFloat x)
  with assms obtain y where y: "u2 = PyFloat y" "fle x y" "bounded_float x" "bounded_float y"
    by (cases u2) (auto simp: total_le_def)
  have "fle (case x of Fin q \<Rightarrow> Fin (round_to_grid (round_2dp q)) | _ \<Rightarrow> x)
            (case y of Fin q \<Rightarrow> Fin (round_to_grid (round_2dp q)) | _ \<Rightarrow> y)"
    using y(2) by (cases x; cases y) (simp_all add: not_less round_to_grid_mono round_2dp_mono)
  then show ?thesis
    by (simp add: PyFloat y py_round2_float score_value_def)
qed (use assms in \<open>auto simp: total_le_def\<close>)

lemma score_mono:
  assumes "list_all (\<lambda>(c, w). unit_weight w) table" "ratings_le table r1 r2"
  shows "\<exists>s1 s2. calculate_weighted_score_in table r1 = Inr s1
            \<and> calculate_weighted_score_in table r2 = Inr s2
            \<and> fle (score_value s1) (score_value s2)"
proof -
  have "total_le (PyInt 0) (PyInt 0)" by (simp add: total_le_def)
  with weighted_loop_mono [OF assms] obtain u1 u2 where
    u: "weighted_loop table r1 (PyInt 0) = Inr u1" "weighted_loop table r2 (PyInt 0) = Inr u2"
      "total_le u1 u2"
    by blast
  from py_round2_mono [OF u(3)] u(1,2) show ?thesis
    by (simp add: calculate_weighted_score_in_def)
qed

lemma ratings_le_update:
  assumes "recognized_all finite_rating table ratings"
    and "ratings c = Some v1" "finite_rating v2" "rating_value v1 \<le> rating_value v2"
  shows "ratings_le table ratings (ratings(c \<mapsto> v2))"
  using assms
  unfolding ratings_le_def recognized_all_def list_all_iff
  by (auto split: option.splits if_splits)

lemma ratings_le_zero:
  assumes "recognized_all finite_rating table ratings"
    and "recognized_all (\<lambda>v. 0 \<le> rating_value v) table ratings"
  shows "ratings_le table (\<lambda>c. map_option (\<lambda>v. PyInt 0) (ratings c)) ratings"
  using assms
  unfolding ratings_le_def recognized_all_def list_all_iff
  by (auto simp: finite_rating_def float_of_int_0 rating_value_def split: option.splits)

lemma weighted_loop_zero:
  assumes "list_all (\<lambda>(c, w). unit_weight w) table"
    and "t = PyInt 0 \<or> t = PyFloat (Fin 0)"
  shows "weighted_loop table (\<lambda>c. map_option (\<lambda>v. PyInt 0) (ratings c)) t = Inr (PyInt 0)
       \<or> weighted_loop table (\<lambda>c. map_option (\<lambda>v. PyInt 0) (ratings c)) t = Inr (PyFloat (Fin 0))"
  using assms
proof (induction table arbitrary: t)
  case Nil
  then show ?case by auto
next
  case (Cons cw table)
  obtain c w where cw: "cw = (c, w)" by (cases cw)
  from Cons.prems(1) obtain q where w: "w = Fin q"
    and wt: "list_all (\<lambda>(c, w). unit_weight w) table"
    by (cases w) (auto simp: cw unit_weight_def)
  show ?case
  proof (cases "ratings c")
    case None
    with Cons.IH [OF wt Cons.prems(2)] show ?thesis
      by (simp add: cw)
  next
    case (Some v)
    have "py_mul (PyInt 0) w = Inr (Fin 0)"
      by (simp add: w float_of_int_0 double_of_rat_def)
    moreover have "py_add t (Fin 0) = Inr (PyFloat (Fin 0))"
      using Cons.prems(2) by (auto simp: float_of_int_0 double_of_rat_def)
    ultimately show ?thesis
      using Cons.IH [OF wt, of "PyFloat (Fin 0)"] by (simp add: cw Some)
  qed
qed

lemma score_zero:
  assumes "list_all (\<lambda>(c, w). unit_weight w) table"
  shows "\<exists>s. calculate_weighted_score_in table (\<lambda>c. map_option (\<lambda>v. PyInt 0) (ratings c)) = Inr s
            \<and> score_value s = Fin 0"
proof -
  have "round_2dp 0 = 0"
    by (simp add: round_2dp_def rhe_of_int [of 0, simplified])
  then have "py_round2 (PyFloat (Fin 0)) = Inr (PyFloat (Fin 0))"
    by (simp add: double_of_rat_def)
  with weighted_loop_zero [OF assms, of "PyInt 0" ratings] show ?thesis
    by (auto simp: calculate_weighted_score_in_def score_value_def)
qed

lemma recognized_all_mono:
  "recognized_all P table ratings \<Longrightarrow> (\<And>v. P v \<Longrightarrow> Q v) \<Longrightarrow> recognized_all Q table ratings"
  by (induction table) (auto simp: recognized_all_def split: option.splits)

lemma weighted_loop_none:
  "recognized_all (\<lambda>v. False) table ratings \<Longrightarrow> weighted_loop table ratings t = Inr t"
  by (induction table) (auto simp: recognized_all_def split: option.splits)

lemma tool_A_finite: "recognized_all finite_rating CRITERIA_WEIGHTS tool_A"
  by code_simp

lemma tool_A_nonneg: "recognized_all (\<lambda>v. 0 \<le> rating_value v) CRITERIA_WEIGHTS tool_A"
  by code_simp

lemma finite_5: "finite_rating (PyInt 5)"
  by code_simp

lemma score_of_rating_1:
  "calculate_weighted_score [''ease_of_use'' \<mapsto> PyInt 1] = Inr (PyFloat (double_of_rat (20 / 100)))"
  by code_simp

lemma score_of_infinities:
  "calculate_weighted_score
     [''ease_of_use'' \<mapsto> PyFloat NInf, ''integration_readiness'' \<mapsto> PyFloat PInf]
     = Inr (PyFloat NaN)"
  by code_simp

lemma score_of_one_infinity:
  "calculate_weighted_score
     [''ease_of_use'' \<mapsto> PyInt 1, ''integration_readiness'' \<mapsto> PyFloat PInf]
     = Inr (PyFloat PInf)"
  by code_simp

text \<open>
  C10, as stated, compares the scores of any two mappings that differ in one rating. A
  rating can be an \<^verbatim>\<open>int\<close> beyond the range of the floats or an infinite \<^verbatim>\<open>float\<close>, and then the
  larger rating need not score at least as much: raising the rating \<open>1\<close> to \<open>2 ^ 1024\<close> turns
  the score \<open>0.2\<close> into an \<^verbatim>\<open>OverflowError\<close>, and beside a rating \<open>+inf\<close>, the rating \<open>-inf\<close>
  scores NaN, which no float is less than or equal to, where the larger rating \<open>1\<close> scores
  \<open>+inf\<close>.
\<close>

theorem monotone_counterexample:
  "calculate_weighted_score [''ease_of_use'' \<mapsto> PyInt 1]
     = Inr (PyFloat (double_of_rat (20 / 100)))
   \<and> (1 :: int) < 2 ^ 1024
   \<and> calculate_weighted_score [''ease_of_use'' \<mapsto> PyInt (2 ^ 1024)] = Inl OverflowError
   \<and> calculate_weighted_score
        [''ease_of_use'' \<mapsto> PyFloat NInf, ''integration_readiness'' \<mapsto> PyFloat PInf]
        = Inr (PyFloat NaN)
   \<and> fless NInf (Fin 1)
   \<and> calculate_weighted_score
        [''ease_of_use'' \<mapsto> PyInt 1, ''integration_readiness'' \<mapsto> PyFloat PInf]
        = Inr (PyFloat PInf)
   \<and> \<not> fle NaN PInf"
  using score_of_rating_1 score_of_huge_rating score_of_infinities score_of_one_infinity
  by simp

text \<open>
  C10, amended. Every weight of \<open>CRITERIA_WEIGHTS\<close> lies between 0 and 1 and rounding is
  monotone, so the score is monotone in each finite rating. Let the ratings of the table's
  criteria be finite numbers: finite floats, or ints within the range of the floats. If a
  second mapping differs from the first in one criterion only, to which it gives a finite
  rating at least as large, both scores exist and the second is greater than or equal to the
  first. If no rating is negative, the score is at least 0. A mapping with none of the
  table's criteria scores exactly 0.
\<close>

theorem score_monotone:
  assumes "recognized_all finite_rating CRITERIA_WEIGHTS ratings"
  shows "(ratings c = Some v1 \<and> finite_rating v2 \<and> rating_value v1 \<le> rating_value v2 \<longrightarrow>
           (\<exists>s1 s2. calculate_weighted_score ratings = Inr s1
               \<and> calculate_weighted_score (ratings(c \<mapsto> v2)) = Inr s2
               \<and> fle (score_value s1) (score_value s2)))
     \<and> (recognized_all (\<lambda>v. 0 \<le> rating_value v) CRITERIA_WEIGHTS ratings \<longrightarrow>
           (\<exists>s. calculate_weighted_score ratings = Inr s \<and> fle (Fin 0) (score_value s)))
     \<and> (recognized_all (\<lambda>v. False) CRITERIA_WEIGHTS ratings \<longrightarrow>
           calculate_weighted_score ratings = Inr (PyInt 0))"
proof (intro conjI impI)
  assume "ratings c = Some v1 \<and> finite_rating v2 \<and> rating_value v1 \<le> rating_value v2"
  then have "ratings_le CRITERIA_WEIGHTS ratings (ratings(c \<mapsto> v2))"
    using assms by (intro ratings_le_update [of _ _ _ v1]) simp_all
  from score_mono [OF weights_ok this]
  show "\<exists>s1 s2. calculate_weighted_score ratings = Inr s1
               \<and> calculate_weighted_score (ratings(c \<mapsto> v2)) = Inr s2
               \<and> fle (score_value s1) (score_value s2)"
    by (simp add: calculate_weighted_score_def)
next
  assume "recognized_all (\<lambda>v. 0 \<le> rating_value v) CRITERIA_WEIGHTS ratings"
  with assms have "ratings_le CRITERIA_WEIGHTS (\<lambda>c. map_option (\<lambda>v. PyInt 0) (ratings c)) ratings"
    by (rule ratings_le_zero)
  from score_mono [OF weights_ok this] score_zero [OF weights_ok, of ratings]
  show "\<exists>s. calculate_weighted_score ratings = Inr s \<and> fle (Fin 0) (score_value s)"
    by (auto simp: calculate_weighted_score_def)
next
  assume "recognized_all (\<lambda>v. False) CRITERIA_WEIGHTS ratings"
  then show "calculate_weighted_score ratings = Inr (PyInt 0)"
    by (simp add: calculate_weighted_score_def calculate_weighted_score_in_def weighted_loop_none)
qed

theorem score_monotone_witness:
  "recognized_all finite_rating CRITERIA_WEIGHTS tool_A
   \<and> tool_A ''ease_of_use'' = Some (PyInt 4) \<and> finite_rating (PyInt 5)
   \<and> rating_value (PyInt 4) \<le> rating_value (PyInt 5)
   \<and> (\<exists>s1 s2. calculate_weighted_score tool_A = Inr s1
          \<and> calculate_weighted_score (tool_A(''ease_of_use'' \<mapsto> PyInt 5)) = Inr s2
          \<and> fle (score_value s1) (score_value s2))
   \<and> recognized_all (\<lambda>v. 0 \<le> rating_value v) CRITERIA_WEIGHTS tool_A
   \<and> (\<exists>s. calculate_weighted_score tool_A = Inr s \<and> fle (Fin 0) (score_value s))
   \<and> recognized_all (\<lambda>v. False) CRITERIA_WEIGHTS [''tool_name'' \<mapsto> PyStr ''A'']
   \<and> calculate_weighted_score [''tool_name'' \<mapsto> PyStr ''A''] = Inr (PyInt 0)"
proof -
  have a: "tool_A ''ease_of_use'' = Some (PyInt 4)"
    by (simp add: tool_A_def)
  have le: "rating_value (PyInt 4) \<le> rating_value (PyInt 5)"
    by (simp add: rating_value_def)
  have none: "recognized_all (\<lambda>v. False) CRITERIA_WEIGHTS [''tool_name'' \<mapsto> PyStr ''A'']"
    by code_simp
  then have fin: "recognized_all finite_rating CRITERIA_WEIGHTS [''tool_name'' \<mapsto> PyStr ''A'']"
    by (rule recognized_all_mono) simp
  from score_monotone [OF tool_A_finite, of "''ease_of_use''" "PyInt 4" "PyInt 5"]
    score_monotone [OF fin, of "''ease_of_use''" "PyInt 4" "PyInt 5"]
    tool_A_finite tool_A_nonneg finite_5 a le none
  show ?thesis by blast
qed

section \<open>The score and the sum of the products\<close>

text \<open>The distance of a number from the float, and from the integer, it is rounded to.\<close>

lemma rhe_error: "\<bar>of_int (round_half_even q) - q\<bar> \<le> 1 / 2"
  using rhe_nearest [of q] by (simp add: abs_minus_commute)

lemma round_to_grid_error:
  "\<bar>round_to_grid x - x\<bar> \<le> pow2 (- 53) * \<bar>x\<bar> + pow2 (- 1075)"
proof -
  let ?u = "pow2 (dexp x - 52)"
  have u: "0 < ?u" by (rule pow2_pos)
  have "round_to_grid x - x = (of_int (round_half_even (x / ?u)) - x / ?u) * ?u"
    using u by (simp add: round_to_grid_alt algebra_simps)
  then have "\<bar>round_to_grid x - x\<bar> = \<bar>of_int (round_half_even (x / ?u)) - x / ?u\<bar> * ?u"
    using u by (simp add: abs_mult)
  also have "\<dots> \<le> 1 / 2 * ?u"
    using u rhe_error [of "x / ?u"] by (intro mult_right_mono) simp_all
  also have "1 / 2 * ?u = pow2 (dexp x - 53)"
    using pow2_add [of "- 1" "dexp x - 52"] by (simp add: pow2_def)
  finally have half: "\<bar>round_to_grid x - x\<bar> \<le> pow2 (dexp x - 53)" .
  show ?thesis
  proof (cases "dexp x = - 1022")
    case True
    with half have "\<bar>round_to_grid x - x\<bar> \<le> pow2 (- 1075)" by simp
    moreover have "0 \<le> pow2 (- 53) * \<bar>x\<bar>"
      using pow2_pos [of "- 53"] by simp
    ultimately show ?thesis by linarith
  next
    case False
    then have e: "dexp x = ilog2 \<bar>x\<bar>"
      by (auto simp: dexp_def max_def split: if_splits)
    show ?thesis
    proof (cases "x = 0")
      case True
      then show ?thesis
        using pow2_pos [of "- 1075"] by (simp add: round_to_grid_zero)
    next
      case nz: False
      then have "pow2 (dexp x) \<le> \<bar>x\<bar>"
        using ilog2_lower [of "\<bar>x\<bar>"] e by simp
      then have "pow2 (- 53) * pow2 (dexp x) \<le> pow2 (- 53) * \<bar>x\<bar>"
        using pow2_pos [of "- 53"] by (intro mult_left_mono) simp_all
      moreover have "pow2 (- 53) * pow2 (dexp x) = pow2 (dexp x - 53)"
        using pow2_add [of "- 53" "dexp x"] by (simp add: add.commute)
      moreover have "0 \<le> pow2 (- 1075)"
        using pow2_pos [of "- 1075"] by simp
      ultimately show ?thesis using half by linarith
    qed
  qed
qed

lemma rhe_unique:
  assumes "\<bar>x - of_int m\<bar> < 1 / 2"
  shows "round_half_even x = m"
proof -
  have "\<bar>of_int (round_half_even x) - x\<bar> \<le> 1 / 2" by (rule rhe_error)
  with assms have "\<bar>(of_int (round_half_even x) :: rat) - of_int m\<bar> < 1" by linarith
  then have "\<bar>round_half_even x - m\<bar> < 1"
    by (metis of_int_abs of_int_diff of_int_less_1_iff)
  then show ?thesis by simp
qed

lemma abs_diff_chain:
  fixes a b c :: rat
  assumes "\<bar>a - b\<bar> \<le> d" "\<bar>b - c\<bar> \<le> e"
  shows "\<bar>a - c\<bar> \<le> d + e"
  using assms by linarith

lemma step_error_bounds:
  assumes "1 \<le> B" "N \<le> 1024"
  shows "0 \<le> step_error N B" "step_error N B \<le> B"
proof -
  have B0: "0 \<le> B" using assms(1) by simp
  have n: "(of_nat N :: rat) \<le> 1024"
    using assms(2) by (metis of_nat_le_iff of_nat_numeral)
  have u: "pow2 (- 53) = 1 / 9007199254740992" and e: "0 < pow2 (- 1075)"
    by (simp_all add: pow2_def pow2_pos)
  show "0 \<le> step_error N B"
    using B0 e by (simp add: step_error_def u)
  have "pow2 (- 53) * (2 + 2 * of_nat N) \<le> 1 / 2"
    using n by (simp add: u)
  then have "pow2 (- 53) * (2 + 2 * of_nat N) * B \<le> 1 / 2 * B"
    using B0 by (intro mult_right_mono)
  moreover have "3 * pow2 (- 1075) \<le> 1 / 2"
    by (simp add: pow2_def)
  ultimately show "step_error N B \<le> B"
    using assms(1) by (simp add: step_error_def algebra_simps)
qed

lemma range_bounds:
  assumes "1 \<le> B" "B \<le> pow2 1000" "N \<le> 1024"
  shows "2 * of_nat N * B \<le> dbl_max" "B \<le> dbl_max"
proof -
  have n: "(of_nat N :: rat) \<le> 1024"
    using assms(3) by (metis of_nat_le_iff of_nat_numeral)
  have "2 * of_nat N * B \<le> 2 * 1024 * pow2 1000"
    using n assms(1,2) by (intro mult_mono) simp_all
  also have "\<dots> \<le> dbl_max"
    by (simp add: dbl_max_def pow2_def)
  finally show "2 * of_nat N * B \<le> dbl_max" .
  have "B \<le> pow2 1000" by fact
  also have "\<dots> \<le> dbl_max"
    by (simp add: dbl_max_def pow2_def)
  finally show "B \<le> dbl_max" .
qed

lemma round_to_grid_within:
  assumes "round_to_grid B = B" "\<bar>x\<bar> \<le> B"
  shows "\<bar>round_to_grid x\<bar> \<le> B"
proof -
  have "round_to_grid x \<le> round_to_grid B"
    using assms(2) by (intro round_to_grid_mono) simp
  moreover have "round_to_grid (- B) \<le> round_to_grid x"
    using assms(2) by (intro round_to_grid_mono) simp
  ultimately show ?thesis
    by (simp add: assms(1) round_to_grid_minus abs_le_iff)
qed

lemma round_to_grid_error_within:
  assumes "0 \<le> B" "\<bar>x\<bar> \<le> B"
  shows "\<bar>round_to_grid x - x\<bar> \<le> pow2 (- 53) * B + pow2 (- 1075)"
proof -
  have "pow2 (- 53) * \<bar>x\<bar> \<le> pow2 (- 53) * B"
    using assms(2) pow2_pos [of "- 53"] by (intro mult_left_mono) simp_all
  with round_to_grid_error [of x] show ?thesis by linarith
qed

lemma product_error:
  assumes "1 \<le> B" "round_to_grid B = B" "B \<le> dbl_max"
    and "finite_rating v" "\<bar>rating_value v\<bar> \<le> B" "0 \<le> q" "q \<le> 1"
  obtains p where "py_mul v (Fin q) = Inr (Fin p)" "\<bar>p\<bar> \<le> B"
    "\<bar>p - rating_value v * q\<bar> \<le> 2 * (pow2 (- 53) * B + pow2 (- 1075))"
proof -
  let ?x = "round_to_grid (rating_value v)"
  let ?p = "round_to_grid (?x * q)"
  have B0: "0 \<le> B" using assms(1) by simp
  have x: "\<bar>?x\<bar> \<le> B"
    using assms(2,5) by (rule round_to_grid_within)
  have xe: "\<bar>?x - rating_value v\<bar> \<le> pow2 (- 53) * B + pow2 (- 1075)"
    using B0 assms(5) by (rule round_to_grid_error_within)
  have "\<bar>?x * q\<bar> \<le> \<bar>?x\<bar> * 1"
    unfolding abs_mult using assms(6,7) by (intro mult_left_mono) simp_all
  with x have xq: "\<bar>?x * q\<bar> \<le> B" by simp
  have p: "\<bar>?p\<bar> \<le> B"
    using assms(2) xq by (rule round_to_grid_within)
  have pe: "\<bar>?p - ?x * q\<bar> \<le> pow2 (- 53) * B + pow2 (- 1075)"
    using B0 xq by (rule round_to_grid_error_within)
  have "\<bar>(?x - rating_value v) * q\<bar> \<le> \<bar>?x - rating_value v\<bar> * 1"
    unfolding abs_mult using assms(6,7) by (intro mult_left_mono) simp_all
  with xe have "\<bar>?x * q - rating_value v * q\<bar> \<le> pow2 (- 53) * B + pow2 (- 1075)"
    by (simp add: algebra_simps)
  with pe have "\<bar>?p - rating_value v * q\<bar>
      \<le> (pow2 (- 53) * B + pow2 (- 1075)) + (pow2 (- 53) * B + pow2 (- 1075))"
    by (rule abs_diff_chain)
  then have "\<bar>?p - rating_value v * q\<bar> \<le> 2 * (pow2 (- 53) * B + pow2 (- 1075))"
    by (simp only: mult_2)
  moreover have "py_mul v (Fin q) = Inr (Fin ?p)"
    using assms(4,6,7) by (rule finite_rating_mul)
  ultimately show ?thesis
    using that p by blast
qed

lemma py_add_finite_total:
  assumes "finite_total t" "\<bar>total_value t + p\<bar> \<le> dbl_max"
  shows "py_add t (Fin p) = Inr (PyFloat (Fin (round_to_grid (total_value t + p))))"
proof (cases t)
  case (PyInt n)
  with assms show ?thesis
    by (simp add: finite_total_def total_value_def float_of_int_0 double_of_rat_finite)
next
  case (PyFloat x)
  with assms(1) obtain q where "x = Fin q"
    by (cases x) (auto simp: finite_total_def)
  with PyFloat assms(2) show ?thesis
    by (simp add: total_value_def double_of_rat_finite)
qed (use assms(1) in \<open>auto simp: finite_total_def\<close>)

lemma weighted_loop_error:
  assumes B: "1 \<le> B" "round_to_grid B = B" "B \<le> pow2 1000" and N: "N \<le> 1024"
  shows "list_all (\<lambda>(c, w). unit_weight w) tbl \<Longrightarrow>
    recognized_all (\<lambda>v. finite_rating v \<and> \<bar>rating_value v\<bar> \<le> B) tbl ratings \<Longrightarrow>
    k + length tbl \<le> N \<Longrightarrow> finite_total t \<Longrightarrow>
    \<bar>total_value t - S\<bar> \<le> of_nat k * step_error N B \<Longrightarrow> \<bar>S\<bar> \<le> of_nat k * B \<Longrightarrow>
    \<exists>t'. weighted_loop tbl ratings t = Inr t' \<and> finite_total t'
       \<and> \<bar>total_value t' - (S + exact_sum tbl ratings)\<bar> \<le> of_nat (k + length tbl) * step_error N B"
proof (induction tbl arbitrary: k t S)
  case Nil
  then show ?case by simp
next
  case (Cons cw tbl)
  obtain c w where cw: "cw = (c, w)" by (cases cw)
  have B0: "0 \<le> B" using B(1) by simp
  note se = step_error_bounds [OF B(1) N]
  note rb = range_bounds [OF B(1,3) N]
  from Cons.prems(1) have uw: "unit_weight w" and uws: "list_all (\<lambda>(c, w). unit_weight w) tbl"
    by (simp_all add: cw)
  from Cons.prems(2) have
    rs: "recognized_all (\<lambda>v. finite_rating v \<and> \<bar>rating_value v\<bar> \<le> B) tbl ratings"
    by (simp add: cw recognized_all_def)
  show ?case
  proof (cases "ratings c")
    case None
    have k: "k + length tbl \<le> N" using Cons.prems(3) by simp
    from Cons.IH [OF uws rs k Cons.prems(4,5,6)] obtain t' where
      t': "weighted_loop tbl ratings t = Inr t'" "finite_total t'"
      "\<bar>total_value t' - (S + exact_sum tbl ratings)\<bar> \<le> of_nat (k + length tbl) * step_error N B"
      by blast
    have "of_nat (k + length tbl) * step_error N B \<le> of_nat (k + length (cw # tbl)) * step_error N B"
      using se(1) by (intro mult_right_mono) simp_all
    with t' show ?thesis
      by (simp add: cw None)
  next
    case (Some v)
    from Cons.prems(2) have fv: "finite_rating v" and bv: "\<bar>rating_value v\<bar> \<le> B"
      by (simp_all add: cw recognized_all_def Some)
    from uw obtain q where w: "w = Fin q" and q: "0 \<le> q" "q \<le> 1"
      by (cases w) (auto simp: unit_weight_def)
    from B(1,2) rb(2) fv bv q obtain p where
      p: "py_mul v (Fin q) = Inr (Fin p)" "\<bar>p\<bar> \<le> B"
      "\<bar>p - rating_value v * q\<bar> \<le> 2 * (pow2 (- 53) * B + pow2 (- 1075))"
      by (rule product_error)
    let ?T = "total_value t"
    have k1: "Suc k \<le> N" using Cons.prems(3) by simp
    then have kN: "(of_nat k :: rat) + 1 \<le> of_nat N"
      by (metis of_nat_Suc of_nat_le_iff add.commute)
    have "of_nat k * step_error N B \<le> of_nat k * B"
      using se(2) by (intro mult_left_mono) simp_all
    with Cons.prems(5,6) have T: "\<bar>?T\<bar> \<le> 2 * of_nat k * B" by linarith
    with p(2) have "\<bar>?T + p\<bar> \<le> 2 * of_nat k * B + 2 * B" using B0 by linarith
    also have "\<dots> = 2 * (of_nat k + 1) * B" by (simp add: algebra_simps)
    also have "\<dots> \<le> 2 * of_nat N * B"
      using kN B0 by (intro mult_right_mono mult_left_mono) simp_all
    finally have Tp: "\<bar>?T + p\<bar> \<le> 2 * of_nat N * B" .
    with rb(1) have Tpd: "\<bar>?T + p\<bar> \<le> dbl_max" by linarith
    let ?t = "PyFloat (Fin (round_to_grid (?T + p)))"
    have add: "py_add t (Fin p) = Inr ?t"
      using Cons.prems(4) Tpd by (rule py_add_finite_total)
    have "\<bar>round_to_grid (?T + p)\<bar> \<le> dbl_max"
      using round_to_grid_dbl_max Tpd by (rule round_to_grid_within)
    then have ft: "finite_total ?t" and tv: "total_value ?t = round_to_grid (?T + p)"
      by (simp_all add: finite_total_def total_value_def)
    have NB: "0 \<le> 2 * of_nat N * B" using B0 by simp
    have re: "\<bar>round_to_grid (?T + p) - (?T + p)\<bar> \<le> pow2 (- 53) * (2 * of_nat N * B) + pow2 (- 1075)"
      using NB Tp by (rule round_to_grid_error_within)
    have "\<bar>round_to_grid (?T + p) - (S + rating_value v * q)\<bar>
        \<le> \<bar>round_to_grid (?T + p) - (?T + p)\<bar> + \<bar>?T - S\<bar> + \<bar>p - rating_value v * q\<bar>"
      by linarith
    also have "\<dots> \<le> (pow2 (- 53) * (2 * of_nat N * B) + pow2 (- 1075)) + of_nat k * step_error N B
         + 2 * (pow2 (- 53) * B + pow2 (- 1075))"
      using re Cons.prems(5) p(3) by linarith
    also have "\<dots> = of_nat (Suc k) * step_error N B"
      by (simp add: step_error_def algebra_simps)
    finally have e: "\<bar>total_value ?t - (S + rating_value v * q)\<bar> \<le> of_nat (Suc k) * step_error N B"
      by (simp add: tv)
    have "\<bar>rating_value v * q\<bar> \<le> \<bar>rating_value v\<bar> * 1"
      unfolding abs_mult using q by (intro mult_left_mono) simp_all
    with bv Cons.prems(6) have "\<bar>S + rating_value v * q\<bar> \<le> of_nat k * B + B" by linarith
    then have s: "\<bar>S + rating_value v * q\<bar> \<le> of_nat (Suc k) * B"
      by (simp add: algebra_simps)
    have k: "Suc k + length tbl \<le> N" using Cons.prems(3) by simp
    from Cons.IH [OF uws rs k ft e s] obtain t' where
      t': "weighted_loop tbl ratings ?t = Inr t'" "finite_total t'"
      "\<bar>total_value t' - (S + rating_value v * q + exact_sum tbl ratings)\<bar>
         \<le> of_nat (Suc k + length tbl) * step_error N B"
      by blast
    then show ?thesis
      by (simp add: cw Some w p(1) add weight_value_def algebra_simps)
  qed
qed

lemma score_from_total:
  assumes "finite_total t"
  shows "\<exists>s. py_round2 t = Inr s
     \<and> score_value s = double_of_rat (of_int (round_half_even (total_value t * 100)) / 100)"
proof (cases t)
  case (PyInt n)
  with assms show ?thesis
    by (simp add: finite_total_def total_value_def score_value_def rhe_of_int [of 0, simplified]
        double_of_rat_finite dbl_max_pos [THEN less_imp_le] round_to_grid_zero)
next
  case (PyFloat x)
  with assms obtain q where x: "x = Fin q" and q: "\<bar>q\<bar> \<le> dbl_max"
    by (cases x) (auto simp: finite_total_def)
  from q have "\<bar>round_2dp q\<bar> \<le> dbl_max"
    by (rule round_2dp_bounded)
  then have "double_of_rat (round_2dp q) = Fin (round_to_grid (round_2dp q))"
    by (rule double_of_rat_finite)
  then show ?thesis
    by (simp add: PyFloat x total_value_def score_value_def round_2dp_def)
qed (use assms in \<open>auto simp: finite_total_def\<close>)

lemma hundredfold_error:
  fixes T S E :: rat
  assumes "\<bar>T - S\<bar> \<le> E"
  shows "\<bar>S * 100 - T * 100\<bar> \<le> 100 * E"
  using assms by linarith

lemma example_score_3:
  "calculate_weighted_score_in
     [(''a'', double_of_rat (5 / 10)), (''b'', double_of_rat (5 / 10))]
     [''a'' \<mapsto> PyInt 4, ''b'' \<mapsto> PyInt 2] = Inr (PyFloat (Fin 3))"
  by code_simp

lemma CRITERIA_WEIGHTS_value:
  "CRITERIA_WEIGHTS =
     [(''ease_of_use'', Fin (3602879701896397 / 18014398509481984)),
      (''integration_readiness'', Fin (3602879701896397 / 18014398509481984)),
      (''cost_efficiency'', Fin (5404319552844595 / 36028797018963968)),
      (''scalability'', Fin (5404319552844595 / 36028797018963968)),
      (''paperwork_automation'', Fin (5404319552844595 / 36028797018963968)),
      (''real_time_visibility'', Fin (5404319552844595 / 36028797018963968))]"
  by code_simp

lemma exact_sum_ratings_1:
  "exact_sum CRITERIA_WEIGHTS ratings_1 = 37830236869912165 / 72057594037927936"
  unfolding CRITERIA_WEIGHTS_value by code_simp

lemma exact_sum_ratings_2:
  "exact_sum CRITERIA_WEIGHTS ratings_2 = 37830236869912165 / 72057594037927936"
  unfolding CRITERIA_WEIGHTS_value by code_simp

lemma exact_sum_rounds_to_52:
  "double_of_rat (round_2dp (37830236869912165 / 72057594037927936)) = double_of_rat (52 / 100)"
  by code_simp

lemma score_ratings_1:
  "calculate_weighted_score ratings_1 = Inr (PyFloat (double_of_rat (53 / 100)))"
  by code_simp

lemma score_ratings_2:
  "calculate_weighted_score ratings_2 = Inr (PyFloat (double_of_rat (52 / 100)))"
  by code_simp

lemma floats_53_52: "double_of_rat (53 / 100) \<noteq> double_of_rat (52 / 100)"
  by code_simp

text \<open>
  C1, as stated, takes the score for the sum of the products \<open>rating * weight\<close>, rounded to
  2 decimal places. The code adds floats, so the total it rounds is not the sum: the mappings
  \<open>ratings_1\<close> and \<open>ratings_2\<close> give the same ratings \<open>1.5, 1, 1\<close> to three criteria of weight
  \<open>0.15\<close>, in another order. Their products have the same sum, just below \<open>0.525\<close>, which
  rounds to \<open>0.52\<close>; the first mapping scores \<open>0.53\<close>, the second \<open>0.52\<close>.
\<close>

theorem sum_rounding_counterexample:
  "exact_sum CRITERIA_WEIGHTS ratings_1 = exact_sum CRITERIA_WEIGHTS ratings_2
   \<and> double_of_rat (round_2dp (exact_sum CRITERIA_WEIGHTS ratings_1)) = double_of_rat (52 / 100)
   \<and> calculate_weighted_score ratings_1 = Inr (PyFloat (double_of_rat (53 / 100)))
   \<and> calculate_weighted_score ratings_2 = Inr (PyFloat (double_of_rat (52 / 100)))
   \<and> double_of_rat (53 / 100) \<noteq> double_of_rat (52 / 100)"
  using exact_sum_rounds_to_52 score_ratings_1 score_ratings_2 floats_53_52
  by (simp only: exact_sum_ratings_1 exact_sum_ratings_2 simp_thms)

text \<open>
  C1, amended. Let the weights lie between 0 and 1, let the table have at most 1024 criteria,
  and let the ratings of its criteria be finite numbers of magnitude at most \<open>B\<close>, a float
  between 1 and \<open>2 ^ 1000\<close>. Then the score exists and is the float nearest to \<open>n / 100\<close> for
  an integer \<open>n\<close> whose distance from 100 times the sum of \<open>rating * weight\<close>, over the criteria
  present in both mappings, is at most \<open>1/2\<close> plus 100 times the rounding error
  \<open>sum_error\<close> of the float additions; whenever the sum is farther than that error from every
  rounding boundary, the score is the sum rounded to 2 decimal places. With the weights
  \<open>{a: 0.5, b: 0.5}\<close> and the ratings \<open>{a: 4, b: 2}\<close> the score is \<open>3.0\<close>.
\<close>

theorem score_near_rounded_sum:
  assumes "1 \<le> B" "double_of_rat B = Fin B" "B \<le> pow2 1000" "length table \<le> 1024"
    and "list_all (\<lambda>(c, w). unit_weight w) table"
    and "recognized_all (\<lambda>v. finite_rating v \<and> \<bar>rating_value v\<bar> \<le> B) table ratings"
  shows "(\<exists>s n. calculate_weighted_score_in table ratings = Inr s
            \<and> score_value s = double_of_rat (of_int n / 100)
            \<and> \<bar>exact_sum table ratings * 100 - of_int n\<bar>
                 \<le> 1 / 2 + 100 * sum_error (length table) B
            \<and> (\<forall>m. \<bar>exact_sum table ratings * 100 - of_int m\<bar>
                      < 1 / 2 - 100 * sum_error (length table) B \<longrightarrow> n = m))
     \<and> calculate_weighted_score_in
          [(''a'', double_of_rat (5 / 10)), (''b'', double_of_rat (5 / 10))]
          [''a'' \<mapsto> PyInt 4, ''b'' \<mapsto> PyInt 2] = Inr (PyFloat (Fin 3))"
proof
  let ?S = "exact_sum table ratings" and ?E = "sum_error (length table) B"
  have "B \<le> dbl_max"
    using assms(1,3) order_refl by (rule range_bounds)
  with assms(1) have "\<bar>B\<bar> \<le> dbl_max" by simp
  then have "double_of_rat B = Fin (round_to_grid B)"
    by (rule double_of_rat_finite)
  with assms(2) have B: "round_to_grid B = B" by simp
  have "\<exists>t. weighted_loop table ratings (PyInt 0) = Inr t \<and> finite_total t
       \<and> \<bar>total_value t - (0 + ?S)\<bar> \<le> of_nat (0 + length table) * step_error (length table) B"
    using assms(1) B assms(3,4,5,6)
    by (rule weighted_loop_error) (simp_all add: finite_total_def total_value_def)
  then obtain t where t: "weighted_loop table ratings (PyInt 0) = Inr t" "finite_total t"
    and e: "\<bar>total_value t - ?S\<bar> \<le> ?E"
    by (auto simp: sum_error_def)
  define n where "n = round_half_even (total_value t * 100)"
  from score_from_total [OF t(2)] obtain s where
    s: "py_round2 t = Inr s" "score_value s = double_of_rat (of_int n / 100)"
    by (auto simp: n_def)
  have d: "\<bar>?S * 100 - total_value t * 100\<bar> \<le> 100 * ?E"
    using e by (rule hundredfold_error)
  have r: "\<bar>total_value t * 100 - of_int n\<bar> \<le> 1 / 2"
    using rhe_nearest [of "total_value t * 100"] by (simp add: n_def)
  have near: "\<bar>?S * 100 - of_int n\<bar> \<le> 1 / 2 + 100 * ?E"
    using d r by linarith
  have uniq: "n = m" if "\<bar>?S * 100 - of_int m\<bar> < 1 / 2 - 100 * ?E" for m
  proof -
    from that d have "\<bar>total_value t * 100 - of_int m\<bar> < 1 / 2" by linarith
    then show ?thesis
      unfolding n_def by (rule rhe_unique)
  qed
  from t(1) s near uniq
  show "\<exists>s n. calculate_weighted_score_in table ratings = Inr s
            \<and> score_value s = double_of_rat (of_int n / 100)
            \<and> \<bar>?S * 100 - of_int n\<bar> \<le> 1 / 2 + 100 * ?E
            \<and> (\<forall>m. \<bar>?S * 100 - of_int m\<bar> < 1 / 2 - 100 * ?E \<longrightarrow> n = m)"
    by (auto simp: calculate_weighted_score_in_def)
next
  show "calculate_weighted_score_in
          [(''a'', double_of_rat (5 / 10)), (''b'', double_of_rat (5 / 10))]
          [''a'' \<mapsto> PyInt 4, ''b'' \<mapsto> PyInt 2] = Inr (PyFloat (Fin 3))"
    by (rule example_score_3)
qed

lemma eight_is_float: "double_of_rat 8 = Fin 8"
  by code_simp

lemma eight_in_range: "8 \<le> pow2 1000"
  by (simp add: pow2_def)

lemma tool_A_within_8:
  "recognized_all (\<lambda>v. finite_rating v \<and> \<bar>rating_value v\<bar> \<le> 8) CRITERIA_WEIGHTS tool_A"
  by code_simp

lemma exact_sum_tool_A:
  "exact_sum CRITERIA_WEIGHTS tool_A = 3602879701896397 / 4503599627370496"
  by code_simp

lemma sum_error_6_8: "sum_error (length CRITERIA_WEIGHTS) 8 \<le> 690 / 9007199254740992"
proof -
  have "pow2 (- 1075) \<le> pow2 (- 53)"
    by (rule pow2_mono) simp
  moreover have "pow2 (- 53) = 1 / 9007199254740992"
    by (simp add: pow2_def)
  ultimately show ?thesis
    by (simp add: sum_error_def step_error_def CRITERIA_WEIGHTS_def)
qed

lemma tool_A_sum_near_80:
  "\<bar>exact_sum CRITERIA_WEIGHTS tool_A * 100 - of_int 80\<bar>
     < 1 / 2 - 100 * sum_error (length CRITERIA_WEIGHTS) 8"
  using sum_error_6_8 by (simp add: exact_sum_tool_A)

lemma six_criteria: "length CRITERIA_WEIGHTS \<le> 1024"
  by (simp add: CRITERIA_WEIGHTS_def)

theorem score_near_rounded_sum_witness:
  "1 \<le> (8 :: rat) \<and> double_of_rat 8 = Fin 8 \<and> 8 \<le> pow2 1000
   \<and> length CRITERIA_WEIGHTS \<le> 1024
   \<and> list_all (\<lambda>(c, w). unit_weight w) CRITERIA_WEIGHTS
   \<and> recognized_all (\<lambda>v. finite_rating v \<and> \<bar>rating_value v\<bar> \<le> 8) CRITERIA_WEIGHTS tool_A
   \<and> \<bar>exact_sum CRITERIA_WEIGHTS tool_A * 100 - of_int 80\<bar>
        < 1 / 2 - 100 * sum_error (length CRITERIA_WEIGHTS) 8
   \<and> (\<exists>s. calculate_weighted_score_in CRITERIA_WEIGHTS tool_A = Inr s
          \<and> score_value s = double_of_rat (of_int 80 / 100))"
proof -
  have one: "1 \<le> (8 :: rat)" by simp
  from score_near_rounded_sum [OF one eight_is_float eight_in_range six_criteria weights_ok
      tool_A_within_8]
  obtain s n where "calculate_weighted_score_in CRITERIA_WEIGHTS tool_A = Inr s"
    "score_value s = double_of_rat (of_int n / 100)"
    "\<forall>m. \<bar>exact_sum CRITERIA_WEIGHTS tool_A * 100 - of_int m\<bar>
            < 1 / 2 - 100 * sum_error (length CRITERIA_WEIGHTS) 8 \<longrightarrow> n = m"
    by blast
  with tool_A_sum_near_80
  have "\<exists>s. calculate_weighted_score_in CRITERIA_WEIGHTS tool_A = Inr s
          \<and> score_value s = double_of_rat (of_int 80 / 100)"
    by blast
  with one eight_is_float eight_in_range six_criteria weights_ok tool_A_within_8
    tool_A_sum_near_80
  show ?thesis by blast
qed


end
